theory Spec2Isabelle
  imports Complex_Main "HOL-Library.Multiset"
begin

section \<open>Data model\<close>

text \<open>
  The script \<^verbatim>\<open>exps_e2e.py\<close> works on lists of crops. A crop is an opaque payload
  together with the integer attribute \<^verbatim>\<open>_label\<close>. Exceptions of Python, numpy, torch
  and pandas are values of \<open>error\<close>; a function that may raise returns \<open>error + 'a\<close>.
\<close>

record 'a crop =
  payload :: 'a
  label :: int

datatype error = ValueError | KeyError | ZeroDivisionError | IndexError | InvalidIndexError

section \<open>numpy primitives used by the script\<close>

text \<open>\<^verbatim>\<open>np.unique(labels)\<close>: the distinct values, ascending.\<close>

definition unique :: "'c::linorder list \<Rightarrow> 'c list" where
  "unique ls = sort (remdups ls)"

text \<open>\<^verbatim>\<open>np.argwhere(labels == lbl).flatten()\<close>: the positions holding \<open>lbl\<close>, ascending.\<close>

definition argwhere :: "'c list \<Rightarrow> 'c \<Rightarrow> nat list" where
  "argwhere labels lbl = [i \<leftarrow> [0..<length labels]. labels ! i = lbl]"

text \<open>\<^verbatim>\<open>(labels == lbl).sum()\<close> and \<^verbatim>\<open>len(np.where(labels == t)[0])\<close>.\<close>

definition count_eq :: "'c list \<Rightarrow> 'c \<Rightarrow> nat" where
  "count_eq labels lbl = length [l \<leftarrow> labels. l = lbl]"

text \<open>
  \<^verbatim>\<open>crops[chosen_indices]\<close>: indexing an array by an array of positions; a position
  outside the array raises.
\<close>

definition take_items :: "'a list \<Rightarrow> nat list \<Rightarrow> error + 'a list" where
  "take_items xs idx =
     (if \<forall>i \<in> set idx. i < length xs then Inr (map (\<lambda>i. xs ! i) idx) else Inl IndexError)"

text \<open>
  The process-wide random source of numpy is a parameter: \<open>permutation g n\<close> is
  \<^verbatim>\<open>RandomState.permutation(n)\<close> in generator state \<open>g\<close>, returning the permuted range
  and the next state. \<open>rng_ok\<close> is the library's contract: the result is a permutation
  of \<open>0..<n\<close>.
\<close>

type_synonym 'g rng = "'g \<Rightarrow> nat \<Rightarrow> nat list \<times> 'g"

definition rng_ok :: "'g rng \<Rightarrow> bool" where
  "rng_ok permutation = (\<forall>g n. mset (fst (permutation g n)) = mset [0..<n])"

text \<open>
  \<^verbatim>\<open>np.random.choice(a, size, replace=False)\<close> for a one-dimensional \<open>a\<close>: a sample larger
  than the population and a negative size raise ValueError; otherwise the first \<open>size\<close>
  positions of a random permutation select the sample.
\<close>

definition random_choice :: "'g rng \<Rightarrow> 'g \<Rightarrow> nat list \<Rightarrow> int \<Rightarrow> error + (nat list \<times> 'g)" where
  "random_choice permutation g a sz =
     (if length a = 0 \<and> sz \<noteq> 0 then Inl ValueError
      else if sz > int (length a) then Inl ValueError
      else if sz < 0 then Inl ValueError
      else (case permutation g (length a) of
              (idx, g') \<Rightarrow>
                (case take_items a (take (nat sz) idx) of
                   Inl e \<Rightarrow> Inl e
                 | Inr chosen \<Rightarrow> Inr (chosen, g'))))"

section \<open>subsample_const_size\<close>

text \<open>
  The body of the loop over the labels (lines 62 to 66): the positions kept for one
  label, and the generator state afterwards.
\<close>

definition choose_indices ::
  "'g rng \<Rightarrow> 'g \<Rightarrow> int list \<Rightarrow> int \<Rightarrow> int \<Rightarrow> error + (nat list \<times> 'g)" where
  "choose_indices permutation g labels lbl sz =
     (let indices = argwhere labels lbl in
      if int (count_eq labels lbl) < sz then Inr (indices, g)
      else random_choice permutation g indices sz)"

text \<open>The loop of lines 61 to 67, threading the generator state and \<open>final_crops\<close>.\<close>

fun subsample_loop ::
  "'g rng \<Rightarrow> 'a crop list \<Rightarrow> int list \<Rightarrow> int \<Rightarrow> int list \<Rightarrow> 'g \<Rightarrow> 'a crop list
     \<Rightarrow> error + ('a crop list \<times> 'g)" where
  "subsample_loop permutation crops labels sz [] g final_crops = Inr (final_crops, g)"
| "subsample_loop permutation crops labels sz (lbl # rest) g final_crops =
     (case choose_indices permutation g labels lbl sz of
        Inl e \<Rightarrow> Inl e
      | Inr (chosen_indices, g') \<Rightarrow>
          (case take_items crops chosen_indices of
             Inl e \<Rightarrow> Inl e
           | Inr chunk \<Rightarrow>
               subsample_loop permutation crops labels sz rest g' (final_crops @ chunk)))"

definition subsample_const_size ::
  "'g rng \<Rightarrow> 'g \<Rightarrow> 'a crop list \<Rightarrow> int \<Rightarrow> error + ('a crop list \<times> 'g)" where
  "subsample_const_size permutation g crops sz =
     (let labels = map label crops
      in subsample_loop permutation crops labels sz (unique labels) g [])"

text \<open>The number of items of a population that carry a label.\<close>

definition label_count :: "'a crop list \<Rightarrow> int \<Rightarrow> nat" where
  "label_count crops L = length [c \<leftarrow> crops. label c = L]"

text \<open>A deterministic generator for concrete runs: it reverses the range and counts the draws.\<close>

definition rev_rng :: "nat rng" where
  "rev_rng g n = (rev [0..<n], Suc g)"

text \<open>A small population for concrete runs: two items of label 1 and one of label 0.\<close>

definition demo_crops :: "string crop list" where
  "demo_crops = [\<lparr>payload = ''a'', label = 1\<rparr>, \<lparr>payload = ''b'', label = 0\<rparr>,
                 \<lparr>payload = ''c'', label = 1\<rparr>]"

section \<open>define_sampler\<close>

text \<open>
  \<^verbatim>\<open>str(l)\<close> for an integer label: its decimal representation, with a minus sign for a
  negative one.
\<close>

function digits :: "nat \<Rightarrow> string" where
  "digits n = (if n < 10 then [''0123456789'' ! n] else digits (n div 10) @ [''0123456789'' ! (n mod 10)])"
  by pat_completeness auto
termination
  by (relation "measure (\<lambda>n. n)") auto

definition str :: "int \<Rightarrow> string" where
  "str l = (if l < 0 then CHR ''-'' # digits (nat (- l)) else digits (nat l))"

text \<open>
  Line 79, \<^verbatim>\<open>[hierarchy_match[str(l)] for l in labels]\<close>: a label whose string is not a key
  of the dictionary raises KeyError (the failure the specification names
  MissingCategoryError).
\<close>

fun lookup_categories :: "(string \<rightharpoonup> 'c) \<Rightarrow> int list \<Rightarrow> error + 'c list" where
  "lookup_categories hierarchy_match [] = Inr []"
| "lookup_categories hierarchy_match (l # ls) =
     (case hierarchy_match (str l) of
        None \<Rightarrow> Inl KeyError
      | Some c \<Rightarrow>
          (case lookup_categories hierarchy_match ls of
             Inl e \<Rightarrow> Inl e
           | Inr cs \<Rightarrow> Inr (c # cs)))"

text \<open>
  Line 82: the dictionary \<^verbatim>\<open>class_sample_count\<close>, as its items in insertion order (the order
  of \<^verbatim>\<open>np.unique\<close>).
\<close>

definition class_sample_count :: "'c::linorder list \<Rightarrow> ('c \<times> nat) list" where
  "class_sample_count labels = map (\<lambda>t. (t, count_eq labels t)) (unique labels)"

text \<open>
  Python's true division \<^verbatim>\<open>/\<close> of two integers returns the binary64 number nearest to
  the quotient (ties to even). A binary64 number is modelled by the rational it denotes.
  \<open>bitlen n\<close> is the number of binary digits of \<open>n\<close>; \<open>double_div n v\<close> scales the quotient
  into the range from \<open>2^52\<close> to \<open>2^53\<close>, rounds it to an integer and scales back. The
  exponent range of binary64 is not modelled: quotients of counts lie far inside it.
\<close>

function bitlen :: "int \<Rightarrow> nat" where
  "bitlen n = (if n \<le> 0 then 0 else Suc (bitlen (n div 2)))"
  by pat_completeness auto
termination
  by (relation "measure nat") auto

declare bitlen.simps [simp del]

definition round_half_even :: "int \<Rightarrow> int \<Rightarrow> int" where
  "round_half_even p q =
     (let f = p div q; r = p mod q
      in if 2 * r < q then f else if q < 2 * r then f + 1 else if even f then f else f + 1)"

definition double_div :: "int \<Rightarrow> int \<Rightarrow> rat" where
  "double_div n v =
     (if n = 0 then 0
      else let s0 = 53 + int (bitlen v) - int (bitlen n);
               s = (if v * 2 ^ 53 * 2 ^ nat (- s0) \<le> n * 2 ^ nat s0 then s0 - 1 else s0);
               m = round_half_even (n * 2 ^ nat s) (v * 2 ^ nat (- s))
           in of_int m * 2 ^ nat (- s) / 2 ^ nat s)"

text \<open>The binary64 number nearest to a positive rational, as a product of floats is rounded.\<close>

definition round_double :: "rat \<Rightarrow> rat" where
  "round_double x = (case quotient_of x of (p, q) \<Rightarrow> double_div p q)"

text \<open>
  The division of line 84 is a parameter \<open>truediv\<close> of the model. \<open>py_truediv\<close> is what
  Python computes; \<open>exact_truediv\<close> is division in exact arithmetic.
\<close>

definition py_truediv :: "nat \<Rightarrow> nat \<Rightarrow> rat" where
  "py_truediv n v = double_div (int n) (int v)"

definition exact_truediv :: "nat \<Rightarrow> nat \<Rightarrow> rat" where
  "exact_truediv n v = of_nat n / of_nat v"

text \<open>
  Line 84: \<^verbatim>\<open>{k: sum(class_sample_count.values()) / v for k, v in ...}\<close>, with \<open>n\<close>
  the sum of the counts. The division raises ZeroDivisionError on a zero count.
\<close>

fun weight_dict ::
  "(nat \<Rightarrow> nat \<Rightarrow> rat) \<Rightarrow> nat \<Rightarrow> ('c \<times> nat) list \<Rightarrow> error + ('c \<times> rat) list" where
  "weight_dict truediv n [] = Inr []"
| "weight_dict truediv n ((k, v) # kvs) =
     (if v = 0 then Inl ZeroDivisionError
      else (case weight_dict truediv n kvs of
              Inl e \<Rightarrow> Inl e
            | Inr w \<Rightarrow> Inr ((k, truediv n v) # w)))"

text \<open>Line 85: \<^verbatim>\<open>[weight[t] for t in labels]\<close>; a missing key raises KeyError.\<close>

fun lookup_weights :: "('c \<times> rat) list \<Rightarrow> 'c list \<Rightarrow> error + rat list" where
  "lookup_weights weight [] = Inr []"
| "lookup_weights weight (t # ts) =
     (case map_of weight t of
        None \<Rightarrow> Inl KeyError
      | Some x \<Rightarrow>
          (case lookup_weights weight ts of
             Inl e \<Rightarrow> Inl e
           | Inr xs \<Rightarrow> Inr (x # xs)))"

text \<open>Lines 81 to 85: the per-item weights for a list of categories.\<close>

definition category_weights ::
  "(nat \<Rightarrow> nat \<Rightarrow> rat) \<Rightarrow> 'c::linorder list \<Rightarrow> error + rat list" where
  "category_weights truediv labels =
     (let class_sample_count = class_sample_count labels
      in case weight_dict truediv (sum_list (map snd class_sample_count)) class_sample_count of
           Inl e \<Rightarrow> Inl e
         | Inr weight \<Rightarrow> lookup_weights weight labels)"

text \<open>
  Lines 77 to 85: the weight vector \<^verbatim>\<open>samples_weight\<close>. Without a dictionary the labels
  themselves are the categories.
\<close>

definition samples_weight ::
  "(nat \<Rightarrow> nat \<Rightarrow> rat) \<Rightarrow> 'a crop list \<Rightarrow> (string \<rightharpoonup> 'c::linorder) option
     \<Rightarrow> error + rat list" where
  "samples_weight truediv crops hierarchy_match =
     (let labels = map label crops in
      case hierarchy_match of
        None \<Rightarrow> category_weights truediv labels
      | Some hm \<Rightarrow>
          (case lookup_categories hm labels of
             Inl e \<Rightarrow> Inl e
           | Inr categories \<Rightarrow> category_weights truediv categories))"

text \<open>
  \<^verbatim>\<open>torch.utils.data.WeightedRandomSampler(weights, num_samples)\<close>: the constructor stores
  its arguments, with \<^verbatim>\<open>replacement=True\<close> by default, and raises ValueError unless
  \<^verbatim>\<open>num_samples\<close> is positive.
\<close>

record sampler =
  weights :: "rat list"
  num_samples :: int
  replacement :: bool

definition WeightedRandomSampler :: "rat list \<Rightarrow> int \<Rightarrow> error + sampler" where
  "WeightedRandomSampler ws n =
     (if n \<le> 0 then Inl ValueError
      else Inr \<lparr>weights = ws, num_samples = n, replacement = True\<rparr>)"

definition define_sampler ::
  "(nat \<Rightarrow> nat \<Rightarrow> rat) \<Rightarrow> 'a crop list \<Rightarrow> (string \<rightharpoonup> 'c::linorder) option
     \<Rightarrow> error + sampler" where
  "define_sampler truediv crops hierarchy_match =
     (case samples_weight truediv crops hierarchy_match of
        Inl e \<Rightarrow> Inl e
      | Inr ws \<Rightarrow> WeightedRandomSampler ws (int (length ws)))"

text \<open>
  The equal-expectation invariant for a per-category weight \<open>w\<close>: the products of count
  and weight agree for any two present categories and equal the number of items.
\<close>

definition equal_expectation :: "'c list \<Rightarrow> ('c \<Rightarrow> rat) \<Rightarrow> bool" where
  "equal_expectation cats w =
     (\<forall>c1 \<in> set cats. \<forall>c2 \<in> set cats.
        of_nat (count_eq cats c1) * w c1 = of_nat (count_eq cats c2) * w c2 \<and>
        of_nat (count_eq cats c2) * w c2 = of_nat (length cats))"

text \<open>
  The weight of a category (line 84): the division applied to the number of items and
  the count of the category.
\<close>

definition category_weight :: "(nat \<Rightarrow> nat \<Rightarrow> rat) \<Rightarrow> 'c list \<Rightarrow> 'c \<Rightarrow> rat" where
  "category_weight truediv cats c = truediv (length cats) (count_eq cats c)"

text \<open>
  The invariant up to the rounding of binary64 division: for a present category the
  product of count and weight misses the number of items \<open>N\<close> by at most \<open>N / 2^53\<close>, and
  the products of two present categories differ by at most \<open>N / 2^52\<close>.
\<close>

definition near_expectation :: "'c list \<Rightarrow> ('c \<Rightarrow> rat) \<Rightarrow> bool" where
  "near_expectation cats w =
     (\<forall>c1 \<in> set cats. \<forall>c2 \<in> set cats.
        \<bar>of_nat (count_eq cats c1) * w c1 - of_nat (count_eq cats c2) * w c2\<bar>
          \<le> of_nat (length cats) / 2 ^ 52 \<and>
        \<bar>of_nat (count_eq cats c2) * w c2 - of_nat (length cats)\<bar>
          \<le> of_nat (length cats) / 2 ^ 53)"

text \<open>
  A population with labels 0, 0, 1, 2 and a dictionary that groups the labels 0 and 1
  into the category 10 and maps the label 2 to the category 20.
\<close>

definition demo_population :: "string crop list" where
  "demo_population = [\<lparr>payload = ''a'', label = 0\<rparr>, \<lparr>payload = ''b'', label = 0\<rparr>,
                      \<lparr>payload = ''c'', label = 1\<rparr>, \<lparr>payload = ''d'', label = 2\<rparr>]"

definition demo_hierarchy :: "string \<rightharpoonup> int" where
  "demo_hierarchy = [''0'' \<mapsto> 10, ''1'' \<mapsto> 10, ''2'' \<mapsto> 20]"

text \<open>
  A population of 15 items, 11 of label 0 and 4 of label 1: the quotient \<open>15 / 11\<close> is
  not a binary64 number.
\<close>

definition demo_rounding :: "unit crop list" where
  "demo_rounding =
     replicate 11 \<lparr>payload = (), label = 0\<rparr> @ replicate 4 \<lparr>payload = (), label = 1\<rparr>"

text \<open>A population of 100 items: 80 of label 0, then 20 of label 1.\<close>

definition demo_imbalanced :: "unit crop list" where
  "demo_imbalanced =
     replicate 80 \<lparr>payload = (), label = 0\<rparr> @ replicate 20 \<lparr>payload = (), label = 1\<rparr>"

section \<open>pandas frames\<close>

text \<open>
  A pandas \<^verbatim>\<open>DataFrame\<close> is a row index and a list of named columns, each column holding
  one cell per row. Column names may repeat, as pandas allows. A cell is a float (the
  rational it denotes), a string, an integer, or the missing-value marker.
\<close>

datatype cell = Float rat | Str string | Integer int | NaN

record 'i frame =
  index :: "'i list"
  columns :: "(string \<times> cell list) list"

text \<open>
  The columns of a frame laid out on another row index: a row the frame does not have
  is filled with the missing-value marker.
\<close>

definition reindex :: "'i list \<Rightarrow> 'i frame \<Rightarrow> (string \<times> cell list) list" where
  "reindex idx f =
     map (\<lambda>(n, vs). (n, map (\<lambda>i. case map_of (zip (index f) vs) i of
                                     None \<Rightarrow> NaN
                                   | Some v \<Rightarrow> v) idx))
         (columns f)"

text \<open>
  \<^verbatim>\<open>pd.concat([a, b], axis=1)\<close>: the columns of \<open>a\<close>, then those of \<open>b\<close>. Frames with the
  same row index are put side by side; otherwise the rows are the union of the two
  indexes in order of appearance, which pandas refuses for an index with duplicates.
\<close>

definition concat_axis1 :: "'i frame \<Rightarrow> 'i frame \<Rightarrow> error + 'i frame" where
  "concat_axis1 a b =
     (if index a = index b
      then Inr \<lparr>index = index a, columns = columns a @ columns b\<rparr>
      else if \<not> distinct (index a) \<or> \<not> distinct (index b) then Inl InvalidIndexError
      else let idx = index a @ [i \<leftarrow> index b. i \<notin> set (index a)]
           in Inr \<lparr>index = idx, columns = reindex idx a @ reindex idx b\<rparr>)"

text \<open>
  \<^verbatim>\<open>frame[name] = v\<close> for a scalar \<open>v\<close>: every column of that name is overwritten with
  \<open>v\<close> in each row; a new name is appended as the last column.
\<close>

definition set_column :: "string \<Rightarrow> cell \<Rightarrow> 'i frame \<Rightarrow> 'i frame" where
  "set_column name v f =
     (let vs = replicate (length (index f)) v
      in if name \<in> fst ` set (columns f)
         then f\<lparr>columns := map (\<lambda>(n, old). if n = name then (n, vs) else (n, old)) (columns f)\<rparr>
         else f\<lparr>columns := columns f @ [(name, vs)]\<rparr>)"

text \<open>The cells of a frame under a column name, missing values where it has no such column.\<close>

definition column_or_nan :: "'i frame \<Rightarrow> string \<Rightarrow> cell list" where
  "column_or_nan f n =
     (case map_of (columns f) n of
        None \<Rightarrow> replicate (length (index f)) NaN
      | Some vs \<Rightarrow> vs)"

text \<open>
  \<^verbatim>\<open>pd.concat(frames)\<close>: the rows of the frames one after the other, over the union of
  their column names in order of first appearance. An empty list raises ValueError.
  Frames with repeated column names can only be stacked when all frames have the same
  list of names; otherwise pandas raises InvalidIndexError.
\<close>

definition concat_axis0 :: "'i frame list \<Rightarrow> error + 'i frame" where
  "concat_axis0 fs =
     (let names = map (\<lambda>f. map fst (columns f)) fs in
      if fs = [] then Inl ValueError
      else if list_all distinct names
      then Inr \<lparr>index = concat (map index fs),
                columns = map (\<lambda>n. (n, concat (map (\<lambda>f. column_or_nan f n) fs)))
                              (remdups (concat names))\<rparr>
      else if list_all (\<lambda>ns. ns = hd names) names
      then Inr \<lparr>index = concat (map index fs),
                columns = map (\<lambda>j. (hd names ! j, concat (map (\<lambda>f. snd (columns f ! j)) fs)))
                              [0..<length (hd names)]\<rparr>
      else Inl InvalidIndexError)"

section \<open>get_metrics\<close>

text \<open>
  A model is known here by the shapes of its parameter tensors: \<^verbatim>\<open>p.numel()\<close> is the
  product of the dimensions of \<open>p\<close>.
\<close>

record model =
  parameters :: "nat list list"

definition numel :: "nat list \<Rightarrow> nat" where
  "numel p = prod_list p"

definition numparams :: "model \<Rightarrow> nat" where
  "numparams m = sum_list (map numel (parameters m))"

text \<open>The command-line arguments (lines 42 to 48) that the evaluation reads.\<close>

record args =
  output_dir :: string
  modelname :: string

text \<open>
  The transforms of \<^verbatim>\<open>data.transform\<close> are opaque: a transform is known by its
  constructor and arguments.
\<close>

datatype transform = train_transform int int | val_transform int

record 'a CellCropsDataset =
  ds_crops :: "'a crop list"
  ds_transform :: transform
  ds_mask :: bool

record 'a loader =
  dataset :: "'a CellCropsDataset"
  batch_size :: int
  num_workers :: int
  sampler :: "sampler option"
  shuffle :: bool


text \<open>
  The two metric families of \<^verbatim>\<open>lee.e2e_lee\<close> and \<^verbatim>\<open>lee.e2e_other\<close>, and the aggregator
  \<^verbatim>\<open>lee.loader.eval_average_metrics_wstd\<close>, are not part of the script. The aggregator
  is a parameter \<open>eval_fn\<close> of the model:
  \<open>eval_fn loader (family, model) max_mbs\<close> is the frame that
  \<^verbatim>\<open>eval_average_metrics_wstd(loader, partial(family, model), max_mbs=max_mbs)\<close> returns,
  or the exception it raises.
\<close>

datatype family = get_lee_metrics | get_discrete_metrics

type_synonym ('a, 'i) evaluator =
  "'a loader \<Rightarrow> family \<times> model \<Rightarrow> nat \<Rightarrow> error + 'i frame"

text \<open>Lines 27 to 40. The discrete family is evaluated first, so its exception wins.\<close>

definition get_metrics ::
  "('a, 'i) evaluator \<Rightarrow> args \<Rightarrow> string \<Rightarrow> 'a loader \<Rightarrow> model \<Rightarrow> nat \<Rightarrow> error + 'i frame" where
  "get_metrics eval_fn a key ldr m max_mbs =
     (case eval_fn ldr (get_discrete_metrics, m) max_mbs of
        Inl e \<Rightarrow> Inl e
      | Inr discrete_metrics \<Rightarrow>
          (case eval_fn ldr (get_lee_metrics, m) max_mbs of
             Inl e \<Rightarrow> Inl e
           | Inr lee_metrics \<Rightarrow>
               (case concat_axis1 lee_metrics discrete_metrics of
                  Inl e \<Rightarrow> Inl e
                | Inr metrics \<Rightarrow>
                    Inr (set_column ''params'' (Integer (int (numparams m)))
                          (set_column ''model'' (Str (modelname a))
                            (set_column ''dataset'' (Str key) metrics))))))"

text \<open>
  What the specification asks of the two evaluation runs on a loader: each returns one
  row, the two rows carry the same row label, their column names are pairwise different
  and none of them is the name of a metadata column.
\<close>

definition metadata_names :: "string list" where
  "metadata_names = [''dataset'', ''model'', ''params'']"

definition aligned_rows :: "'i frame \<Rightarrow> 'i frame \<Rightarrow> bool" where
  "aligned_rows lee_metrics discrete_metrics =
     (length (index lee_metrics) = 1 \<and> index discrete_metrics = index lee_metrics \<and>
      distinct (map fst (columns lee_metrics @ columns discrete_metrics)) \<and>
      list_all (\<lambda>n. n \<notin> set metadata_names)
               (map fst (columns lee_metrics @ columns discrete_metrics)))"

definition evaluates_to_rows :: "('a, 'i) evaluator \<Rightarrow> model \<Rightarrow> nat \<Rightarrow> 'a loader \<Rightarrow> bool" where
  "evaluates_to_rows eval_fn m max_mbs ldr =
     (case eval_fn ldr (get_discrete_metrics, m) max_mbs of
        Inl e \<Rightarrow> False
      | Inr discrete_metrics \<Rightarrow>
          (case eval_fn ldr (get_lee_metrics, m) max_mbs of
             Inl e \<Rightarrow> False
           | Inr lee_metrics \<Rightarrow> aligned_rows lee_metrics discrete_metrics))"

section \<open>main\<close>

text \<open>
  Lines 147 to 164: \<^verbatim>\<open>evaluated_metrics\<close> collects one call of \<^verbatim>\<open>get_metrics\<close>, with the
  default cap of 400 batches, for each requested pair of a dataset key and a loader, from
  left to right; the first exception ends the run. Line 212 stacks the rows.
\<close>

fun evaluated_metrics ::
  "('a, 'i) evaluator \<Rightarrow> args \<Rightarrow> model \<Rightarrow> (string \<times> 'a loader) list \<Rightarrow> error + 'i frame list" where
  "evaluated_metrics eval_fn a m [] = Inr []"
| "evaluated_metrics eval_fn a m ((key, ldr) # rest) =
     (case get_metrics eval_fn a key ldr m 400 of
        Inl e \<Rightarrow> Inl e
      | Inr row \<Rightarrow>
          (case evaluated_metrics eval_fn a m rest of
             Inl e \<Rightarrow> Inl e
           | Inr rows \<Rightarrow> Inr (row # rows)))"

definition report ::
  "('a, 'i) evaluator \<Rightarrow> args \<Rightarrow> model \<Rightarrow> (string \<times> 'a loader) list \<Rightarrow> error + 'i frame" where
  "report eval_fn a m pairs =
     (case evaluated_metrics eval_fn a m pairs of
        Inl e \<Rightarrow> Inl e
      | Inr rows \<Rightarrow> concat_axis0 rows)"






text \<open>
  Concrete inputs: an evaluator that returns the row \<open>lee_a, lee_b\<close> for the continuous
  family and the row \<open>disc_x\<close> for the discrete family, with the row label 0; a model with
  a 2 by 3 weight and a bias of 3; a validation population; a configuration without
  subsampling and with balanced sampling.
\<close>

definition demo_eval :: "(string, nat) evaluator" where
  "demo_eval ldr fm max_mbs =
     (case fst fm of
        get_lee_metrics \<Rightarrow>
          Inr \<lparr>index = [0], columns = [(''lee_a'', [Float 1]), (''lee_b'', [Float 2])]\<rparr>
      | get_discrete_metrics \<Rightarrow>
          Inr \<lparr>index = [0], columns = [(''disc_x'', [Float 3])]\<rparr>)"

definition demo_model :: model where
  "demo_model = \<lparr>parameters = [[2, 3], [3]]\<rparr>"

definition demo_args :: args where
  "demo_args = \<lparr>output_dir = ''equivariance_metrics_cnns'', modelname = ''resnet18''\<rparr>"




text \<open>The three loaders that \<^verbatim>\<open>main\<close> builds from the concrete inputs.\<close>

definition demo_sampler :: sampler where
  "demo_sampler = \<lparr>weights = [3 / 2, 3, 3 / 2], num_samples = 3, replacement = True\<rparr>"

definition demo_train_loader :: "string loader" where
  "demo_train_loader =
     \<lparr>dataset = \<lparr>ds_crops = demo_crops, ds_transform = train_transform 100 5, ds_mask = True\<rparr>,
      batch_size = 2, num_workers = 0, sampler = Some demo_sampler, shuffle = False\<rparr>"


definition demo_val_loader :: "string loader" where
  "demo_val_loader =
     \<lparr>dataset = \<lparr>ds_crops = [\<lparr>payload = ''v'', label = 0\<rparr>], ds_transform = val_transform 100,
                 ds_mask = True\<rparr>,
      batch_size = 2, num_workers = 0, sampler = None, shuffle = False\<rparr>"

text \<open>
  Two requested pairs, as in the scenario of the specification: the datasets \<open>train\<close>
  and \<open>val\<close>.
\<close>

definition demo_pairs :: "(string \<times> string loader) list" where
  "demo_pairs = [(''train'', demo_train_loader), (''val'', demo_val_loader)]"

section \<open>Properties of subsample_const_size\<close>

lemma set_unique: "set (unique ls) = set ls" by (simp add: unique_def)
lemma distinct_unique: "distinct (unique ls)" by (simp add: unique_def)

lemma argwhere_bound: "i \<in> set (argwhere labels lbl) \<Longrightarrow> i < length labels \<and> labels ! i = lbl"
  by (auto simp: argwhere_def)
lemma distinct_argwhere: "distinct (argwhere labels lbl)" by (simp add: argwhere_def)
lemma length_argwhere: "length (argwhere labels lbl) = count_eq labels lbl"
proof -
  have "[l \<leftarrow> labels. l = lbl] = [l \<leftarrow> map ((!) labels) [0..<length labels]. l = lbl]"
    by (simp add: map_nth)
  also have "\<dots> = map ((!) labels) (argwhere labels lbl)"
    by (simp add: filter_map argwhere_def comp_def)
  finally show ?thesis by (simp add: count_eq_def)
qed

lemma map_nth_argwhere:
  "map ((!) crops) (argwhere (map label crops) lbl) = [c \<leftarrow> crops. label c = lbl]"
proof -
  have "[c \<leftarrow> crops. label c = lbl] = [c \<leftarrow> map ((!) crops) [0..<length crops]. label c = lbl]"
    by (simp add: map_nth)
  also have "\<dots> = map ((!) crops) [i \<leftarrow> [0..<length crops]. label (crops ! i) = lbl]"
    by (simp add: filter_map comp_def)
  also have "[i \<leftarrow> [0..<length crops]. label (crops ! i) = lbl] = argwhere (map label crops) lbl"
    unfolding argwhere_def by (rule filter_cong) auto
  finally show ?thesis by simp
qed

lemma take_items_ok: "\<forall>i \<in> set idx. i < length xs \<Longrightarrow> take_items xs idx = Inr (map ((!) xs) idx)"
  by (simp add: take_items_def)

lemma random_choice_ok:
  assumes "rng_ok permutation" "0 \<le> sz" "sz \<le> int (length a)"
  shows "\<exists>chosen g'. random_choice permutation g a sz = Inr (chosen, g') \<and>
           length chosen = nat sz \<and> mset chosen \<subseteq># mset a \<and>
           (sz = int (length a) \<longrightarrow> mset chosen = mset a)"
proof -
  obtain idx g' where p: "permutation g (length a) = (idx, g')" by (cases "permutation g (length a)")
  from assms(1) p have m: "mset idx = mset [0..<length a]"
    unfolding rng_ok_def by (metis fst_conv)
  then have s: "set idx = {0..<length a}" by (metis mset_eq_setD set_upt)
  have l: "length idx = length a" using m by (metis length_upt mset_eq_length minus_nat.diff_0)
  let ?t = "take (nat sz) idx"
  have inb: "\<forall>i \<in> set ?t. i < length a" using s by (auto dest: in_set_takeD)
  have ti: "take_items a ?t = Inr (map ((!) a) ?t)" using inb by (rule take_items_ok)
  have rc: "random_choice permutation g a sz = Inr (map ((!) a) ?t, g')"
    using assms(2,3) p ti by (auto simp: random_choice_def)
  have len: "length (map ((!) a) ?t) = nat sz" using l assms(2,3) by simp
  have "mset ?t \<subseteq># mset idx" by (metis append_take_drop_id mset_append mset_subset_eq_add_left)
  then have "image_mset ((!) a) (mset ?t) \<subseteq># image_mset ((!) a) (mset [0..<length a])"
    using m by (simp add: image_mset_subseteq_mono)
  then have sub: "mset (map ((!) a) ?t) \<subseteq># mset a"
    by (metis map_nth mset_map)
  have full: "sz = int (length a) \<longrightarrow> mset (map ((!) a) ?t) = mset a"
  proof
    assume "sz = int (length a)"
    then have "?t = idx" using l by simp
    then have "mset (map ((!) a) ?t) = image_mset ((!) a) (mset [0..<length a])" using m by simp
    then show "mset (map ((!) a) ?t) = mset a" by (metis map_nth mset_map)
  qed
  show ?thesis using rc len sub full by blast
qed

lemma count_eq_labels: "count_eq (map label crops) lbl = label_count crops lbl"
  by (simp add: count_eq_def label_count_def filter_map comp_def)

lemma sub_mset_distinct:
  assumes "distinct a" "mset c \<subseteq># mset a"
  shows "distinct c"
proof -
  have "count (mset c) x \<le> 1" for x
  proof -
    have "count (mset c) x \<le> count (mset a) x" using assms(2) by (rule mset_subset_eq_count)
    also have "\<dots> \<le> 1" using assms(1) by (simp add: distinct_count_atmost_1)
    finally show ?thesis .
  qed
  then show ?thesis unfolding distinct_count_atmost_1
    by (metis count_mset_0_iff le_neq_implies_less less_one)
qed

lemma choose_indices_ok:
  assumes "rng_ok permutation" "0 \<le> sz"
  shows "\<exists>chosen g'. choose_indices permutation g labels lbl sz = Inr (chosen, g') \<and>
           int (length chosen) = min (int (count_eq labels lbl)) sz \<and>
           mset chosen \<subseteq># mset (argwhere labels lbl) \<and>
           (int (count_eq labels lbl) \<le> sz \<longrightarrow> mset chosen = mset (argwhere labels lbl))"
proof (cases "int (count_eq labels lbl) < sz")
  case True
  then have "choose_indices permutation g labels lbl sz = Inr (argwhere labels lbl, g)"
    by (simp add: choose_indices_def)
  with True show ?thesis by (simp add: length_argwhere)
next
  case False
  then have le: "sz \<le> int (length (argwhere labels lbl))" by (simp add: length_argwhere)
  from random_choice_ok [OF assms(1) assms(2) le, of g]
  obtain chosen g' where r: "random_choice permutation g (argwhere labels lbl) sz = Inr (chosen, g')"
    "length chosen = nat sz" "mset chosen \<subseteq># mset (argwhere labels lbl)"
    "sz = int (length (argwhere labels lbl)) \<longrightarrow> mset chosen = mset (argwhere labels lbl)"
    by blast
  have c: "choose_indices permutation g labels lbl sz = Inr (chosen, g')"
    using False r(1) by (simp add: choose_indices_def)
  have "int (length chosen) = min (int (count_eq labels lbl)) sz"
    using r(2) False assms(2) by simp
  moreover have "int (count_eq labels lbl) \<le> sz \<longrightarrow> mset chosen = mset (argwhere labels lbl)"
    using r(4) False by (simp add: length_argwhere)
  ultimately show ?thesis using c r(3) by blast
qed

lemma chunk_of_chosen:
  assumes "mset chosen \<subseteq># mset (argwhere (map label crops) lbl)"
  shows "take_items crops chosen = Inr (map ((!) crops) chosen)"
    and "label_count (map ((!) crops) chosen) L = (if L = lbl then length chosen else 0)"
proof -
  have sub: "set chosen \<subseteq> set (argwhere (map label crops) lbl)"
    using set_mset_mono [OF assms] by simp
  then have b: "\<forall>i \<in> set chosen. i < length crops \<and> label (crops ! i) = lbl"
    by (auto dest!: subsetD argwhere_bound)
  then show "take_items crops chosen = Inr (map ((!) crops) chosen)"
    by (simp add: take_items_ok)
  have "[c \<leftarrow> map ((!) crops) chosen. label c = L] = (if L = lbl then map ((!) crops) chosen else [])"
    using b by (induction chosen) auto
  then show "label_count (map ((!) crops) chosen) L = (if L = lbl then length chosen else 0)"
    by (simp add: label_count_def)
qed

lemma chunk_all:
  assumes "mset chosen = mset (argwhere (map label crops) lbl)"
  shows "mset (map ((!) crops) chosen) = mset [c \<leftarrow> crops. label c = lbl]"
proof -
  have "mset (map ((!) crops) chosen) = mset (map ((!) crops) (argwhere (map label crops) lbl))"
    using assms by (metis mset_map)
  then show ?thesis by (simp add: map_nth_argwhere)
qed

lemma label_count_append: "label_count (xs @ ys) L = label_count xs L + label_count ys L"
  by (simp add: label_count_def)

lemma subsample_loop_ok:
  assumes "rng_ok permutation" "0 \<le> sz" "distinct ls"
  shows "\<exists>out g'. subsample_loop permutation crops (map label crops) sz ls g final = Inr (out, g') \<and>
           (\<forall>L. int (label_count out L) = int (label_count final L) +
                   (if L \<in> set ls then min (int (label_count crops L)) sz else 0)) \<and>
           ((\<forall>L \<in> set ls. int (label_count crops L) \<le> sz) \<longrightarrow>
              mset out = mset final + mset [c \<leftarrow> crops. label c \<in> set ls])"
  using assms(3)
proof (induction ls arbitrary: g final)
  case Nil
  then show ?case by simp
next
  case (Cons lbl rest)
  from choose_indices_ok [OF assms(1,2), of g "map label crops" lbl]
  obtain chosen g1 where c: "choose_indices permutation g (map label crops) lbl sz = Inr (chosen, g1)"
    "int (length chosen) = min (int (label_count crops lbl)) sz"
    "mset chosen \<subseteq># mset (argwhere (map label crops) lbl)"
    "int (label_count crops lbl) \<le> sz \<longrightarrow> mset chosen = mset (argwhere (map label crops) lbl)"
    unfolding count_eq_labels by blast
  let ?chunk = "map ((!) crops) chosen"
  note ch = chunk_of_chosen [OF c(3)]
  from Cons.prems have d: "distinct rest" and nin: "lbl \<notin> set rest" by simp_all
  from Cons.IH [OF d, of g1 "final @ ?chunk"]
  obtain out g' where r: "subsample_loop permutation crops (map label crops) sz rest g1 (final @ ?chunk) = Inr (out, g')"
    "\<forall>L. int (label_count out L) = int (label_count (final @ ?chunk) L) +
                   (if L \<in> set rest then min (int (label_count crops L)) sz else 0)"
    "(\<forall>L \<in> set rest. int (label_count crops L) \<le> sz) \<longrightarrow>
              mset out = mset (final @ ?chunk) + mset [c \<leftarrow> crops. label c \<in> set rest]"
    by blast
  have run: "subsample_loop permutation crops (map label crops) sz (lbl # rest) g final = Inr (out, g')"
    using c(1) ch(1) r(1) by simp
  have cnt: "\<forall>L. int (label_count out L) = int (label_count final L) +
                   (if L \<in> set (lbl # rest) then min (int (label_count crops L)) sz else 0)"
    using r(2) ch(2) c(2) nin by (auto simp: label_count_append)
  have ms: "(\<forall>L \<in> set (lbl # rest). int (label_count crops L) \<le> sz) \<longrightarrow>
              mset out = mset final + mset [c \<leftarrow> crops. label c \<in> set (lbl # rest)]"
  proof
    assume a: "\<forall>L \<in> set (lbl # rest). int (label_count crops L) \<le> sz"
    then have 1: "mset out = mset (final @ ?chunk) + mset [c \<leftarrow> crops. label c \<in> set rest]"
      using r(3) by simp
    from a c(4) have "mset chosen = mset (argwhere (map label crops) lbl)" by simp
    then have 2: "mset ?chunk = mset [c \<leftarrow> crops. label c = lbl]" by (rule chunk_all)
    have 3: "mset [c \<leftarrow> crops. label c \<in> set (lbl # rest)] =
             mset [c \<leftarrow> crops. label c = lbl] + mset [c \<leftarrow> crops. label c \<in> set rest]"
      using nin by (induction crops) auto
    show "mset out = mset final + mset [c \<leftarrow> crops. label c \<in> set (lbl # rest)]"
      using 1 2 3 by simp
  qed
  show ?case using run cnt ms by blast
qed

lemma label_count_Nil: "label_count [] L = 0"
  by (simp add: label_count_def)

lemma filter_present_labels: "[c \<leftarrow> crops. label c \<in> set (unique (map label crops))] = crops"
  by (simp add: set_unique)

text \<open>
  Claim C1 (stratified subsampling bound). For a target size that is not negative and a
  random source that returns permutations, \<open>subsample_const_size\<close> returns a population;
  for every label \<open>L\<close> present in the input, with original count \<open>C\<close>, the output holds
  exactly \<open>min C size\<close> items of label \<open>L\<close>; and when the size is at least the count of
  every label, the output is the input as a multiset of items.
\<close>

theorem subsample_bound:
  fixes crops :: "'a crop list"
  assumes "rng_ok permutation" "0 \<le> sz"
  shows "\<exists>out g'. subsample_const_size permutation g crops sz = Inr (out, g') \<and>
           (\<forall>L \<in> set (map label crops).
              int (label_count out L) = min (int (label_count crops L)) sz) \<and>
           ((\<forall>L \<in> set (map label crops). int (label_count crops L) \<le> sz) \<longrightarrow>
              mset out = mset crops)"
proof -
  have "\<exists>out g'. subsample_loop permutation crops (map label crops) sz (unique (map label crops)) g [] = Inr (out, g') \<and>
           (\<forall>L. int (label_count out L) = int (label_count ([] :: 'a crop list) L) +
                   (if L \<in> set (unique (map label crops)) then min (int (label_count crops L)) sz else 0)) \<and>
           ((\<forall>L \<in> set (unique (map label crops)). int (label_count crops L) \<le> sz) \<longrightarrow>
              mset out = mset [] + mset [c \<leftarrow> crops. label c \<in> set (unique (map label crops))])"
    using assms distinct_unique by (rule subsample_loop_ok)
  then obtain out g' where
    r: "subsample_loop permutation crops (map label crops) sz (unique (map label crops)) g [] = Inr (out, g')"
      "\<forall>L. int (label_count out L) =
            (if L \<in> set (map label crops) then min (int (label_count crops L)) sz else 0)"
      "(\<forall>L \<in> set (map label crops). int (label_count crops L) \<le> sz) \<longrightarrow> mset out = mset crops"
    unfolding filter_present_labels label_count_Nil set_unique by auto
  have 1: "subsample_const_size permutation g crops sz = Inr (out, g')"
    using r(1) by (simp add: subsample_const_size_def)
  have 2: "\<forall>L \<in> set (map label crops). int (label_count out L) = min (int (label_count crops L)) sz"
    using r(2) by simp
  show ?thesis using 1 2 r(3) by blast
qed

lemma choose_indices_distinct:
  assumes "rng_ok permutation" "0 \<le> sz"
  shows "\<exists>chosen g'. choose_indices permutation g (map label crops) lbl sz = Inr (chosen, g') \<and>
           int (length chosen) = min (int (label_count crops lbl)) sz \<and> distinct chosen \<and>
           (\<forall>i \<in> set chosen. i < length crops \<and> label (crops ! i) = lbl) \<and>
           take_items crops chosen = Inr (map ((!) crops) chosen)"
proof -
  from choose_indices_ok [OF assms, of g "map label crops" lbl]
  obtain chosen g' where c: "choose_indices permutation g (map label crops) lbl sz = Inr (chosen, g')"
    "int (length chosen) = min (int (label_count crops lbl)) sz"
    "mset chosen \<subseteq># mset (argwhere (map label crops) lbl)"
    unfolding count_eq_labels by blast
  have d: "distinct chosen" using distinct_argwhere c(3) by (rule sub_mset_distinct)
  have "set chosen \<subseteq> set (argwhere (map label crops) lbl)"
    using set_mset_mono [OF c(3)] by simp
  then have b: "\<forall>i \<in> set chosen. i < length crops \<and> label (crops ! i) = lbl"
    by (auto dest!: subsetD argwhere_bound)
  show ?thesis using c(1,2) d b chunk_of_chosen(1) [OF c(3)] by blast
qed

lemma subsample_loop_positions:
  assumes "rng_ok permutation" "0 \<le> sz" "distinct ls"
  shows "\<exists>idxs g'. subsample_loop permutation crops (map label crops) sz ls g final
             = Inr (final @ map ((!) crops) idxs, g') \<and>
           distinct idxs \<and>
           (\<forall>i \<in> set idxs. i < length crops \<and> label (crops ! i) \<in> set ls) \<and>
           (\<forall>L. int (length [i \<leftarrow> idxs. label (crops ! i) = L]) =
                  (if L \<in> set ls then min (int (label_count crops L)) sz else 0))"
  using assms(3)
proof (induction ls arbitrary: g final)
  case Nil
  then show ?case by simp
next
  case (Cons lbl rest)
  from choose_indices_distinct [OF assms(1,2), of g crops lbl]
  obtain chosen g1 where c: "choose_indices permutation g (map label crops) lbl sz = Inr (chosen, g1)"
    "int (length chosen) = min (int (label_count crops lbl)) sz" "distinct chosen"
    "\<forall>i \<in> set chosen. i < length crops \<and> label (crops ! i) = lbl"
    "take_items crops chosen = Inr (map ((!) crops) chosen)"
    by blast
  from Cons.prems have d: "distinct rest" and nin: "lbl \<notin> set rest" by simp_all
  from Cons.IH [OF d, of g1 "final @ map ((!) crops) chosen"]
  obtain idxs g' where r:
    "subsample_loop permutation crops (map label crops) sz rest g1 (final @ map ((!) crops) chosen)
       = Inr ((final @ map ((!) crops) chosen) @ map ((!) crops) idxs, g')"
    "distinct idxs"
    "\<forall>i \<in> set idxs. i < length crops \<and> label (crops ! i) \<in> set rest"
    "\<forall>L. int (length [i \<leftarrow> idxs. label (crops ! i) = L]) =
                  (if L \<in> set rest then min (int (label_count crops L)) sz else 0)"
    by blast
  have run: "subsample_loop permutation crops (map label crops) sz (lbl # rest) g final
               = Inr (final @ map ((!) crops) (chosen @ idxs), g')"
    using c(1,5) r(1) by simp
  have dis: "distinct (chosen @ idxs)"
    using c(3,4) r(2,3) nin by auto
  have inb: "\<forall>i \<in> set (chosen @ idxs). i < length crops \<and> label (crops ! i) \<in> set (lbl # rest)"
    using c(4) r(3) by auto
  have fc: "[i \<leftarrow> chosen. label (crops ! i) = L] = (if L = lbl then chosen else [])" for L
    using c(4) by (induction chosen) auto
  have cnt: "\<forall>L. int (length [i \<leftarrow> chosen @ idxs. label (crops ! i) = L]) =
                  (if L \<in> set (lbl # rest) then min (int (label_count crops L)) sz else 0)"
    using r(4) c(2) nin by (auto simp: fc)
  show ?case using run dis inb cnt by blast
qed

text \<open>
  Claim C3 (no duplication). The output of \<open>subsample_const_size\<close> is read from pairwise
  distinct positions of the input, so no item of the input is retained twice; for a
  label whose count is at least the size, exactly \<open>size\<close> of these positions carry it.
\<close>

theorem subsample_no_duplication:
  fixes crops :: "'a crop list"
  assumes "rng_ok permutation" "0 \<le> sz"
  shows "\<exists>idxs g'. subsample_const_size permutation g crops sz = Inr (map ((!) crops) idxs, g') \<and>
           distinct idxs \<and> (\<forall>i \<in> set idxs. i < length crops) \<and>
           (\<forall>L \<in> set (map label crops). sz \<le> int (label_count crops L) \<longrightarrow>
              length [i \<leftarrow> idxs. label (crops ! i) = L] = nat sz)"
proof -
  have "\<exists>idxs g'. subsample_loop permutation crops (map label crops) sz (unique (map label crops)) g []
             = Inr ([] @ map ((!) crops) idxs, g') \<and>
           distinct idxs \<and>
           (\<forall>i \<in> set idxs. i < length crops \<and> label (crops ! i) \<in> set (unique (map label crops))) \<and>
           (\<forall>L. int (length [i \<leftarrow> idxs. label (crops ! i) = L]) =
                  (if L \<in> set (unique (map label crops)) then min (int (label_count crops L)) sz else 0))"
    using assms distinct_unique by (rule subsample_loop_positions)
  then obtain idxs g' where
    r: "subsample_loop permutation crops (map label crops) sz (unique (map label crops)) g []
             = Inr (map ((!) crops) idxs, g')"
       "distinct idxs" "\<forall>i \<in> set idxs. i < length crops"
       "\<forall>L. int (length [i \<leftarrow> idxs. label (crops ! i) = L]) =
                  (if L \<in> set (map label crops) then min (int (label_count crops L)) sz else 0)"
    unfolding set_unique by auto
  have 1: "subsample_const_size permutation g crops sz = Inr (map ((!) crops) idxs, g')"
    using r(1) by (simp add: subsample_const_size_def)
  have 2: "\<forall>L \<in> set (map label crops). sz \<le> int (label_count crops L) \<longrightarrow>
              length [i \<leftarrow> idxs. label (crops ! i) = L] = nat sz"
  proof (intro ballI impI)
    fix L assume "L \<in> set (map label crops)" "sz \<le> int (label_count crops L)"
    with r(4) have "int (length [i \<leftarrow> idxs. label (crops ! i) = L]) = sz" by simp
    then show "length [i \<leftarrow> idxs. label (crops ! i) = L] = nat sz" by simp
  qed
  show ?thesis using 1 r(2,3) 2 by blast
qed

lemma random_choice_zero: "\<exists>g'. random_choice permutation g a 0 = Inr ([], g')"
  by (cases "permutation g (length a)") (simp add: random_choice_def take_items_def)

lemma random_choice_negative: "sz < 0 \<Longrightarrow> random_choice permutation g a sz = Inl ValueError"
  by (simp add: random_choice_def)

lemma subsample_loop_zero:
  "\<exists>g'. subsample_loop permutation crops labels 0 ls g final = Inr (final, g')"
proof (induction ls arbitrary: g)
  case Nil
  then show ?case by simp
next
  case (Cons lbl rest)
  obtain g1 where "random_choice permutation g (argwhere labels lbl) 0 = Inr ([], g1)"
    using random_choice_zero [of permutation g "argwhere labels lbl"] by auto
  then have "choose_indices permutation g labels lbl 0 = Inr ([], g1)"
    by (simp add: choose_indices_def)
  then show ?case using Cons.IH [of g1] by (simp add: take_items_def)
qed

text \<open>
  Claim C4, as the code behaves. Size \<open>0\<close> retains no item and raises nothing, whatever
  the random source. A negative size on a population that is not empty raises
  ValueError: no count is below a negative size, so the first label already reaches
  \<^verbatim>\<open>np.random.choice\<close>, which refuses a negative sample size.
\<close>

theorem subsample_degenerate_size:
  "(sz = 0 \<longrightarrow> (\<exists>g'. subsample_const_size permutation g crops sz = Inr ([], g'))) \<and>
   (sz < 0 \<and> crops \<noteq> [] \<longrightarrow> subsample_const_size permutation g crops sz = Inl ValueError)"
proof (intro conjI impI)
  assume "sz = 0"
  then show "\<exists>g'. subsample_const_size permutation g crops sz = Inr ([], g')"
    using subsample_loop_zero [of permutation crops "map label crops" "unique (map label crops)" g "[]"]
    by (simp add: subsample_const_size_def Let_def)
next
  assume a: "sz < 0 \<and> crops \<noteq> []"
  then have "set (unique (map label crops)) \<noteq> {}" by (simp add: set_unique)
  then obtain lbl rest where u: "unique (map label crops) = lbl # rest"
    by (cases "unique (map label crops)") auto
  have "choose_indices permutation g (map label crops) lbl sz = Inl ValueError"
    using a by (simp add: choose_indices_def random_choice_negative)
  then show "subsample_const_size permutation g crops sz = Inl ValueError"
    by (simp add: subsample_const_size_def u)
qed

lemma rng_ok_rev_rng: "rng_ok rev_rng"
  by (simp add: rng_ok_def rev_rng_def)

text \<open>
  Claim C1 at a concrete input: size 2 on the demo population keeps the one item of
  label 0 and both items of label 1.
\<close>

theorem subsample_bound_witness:
  "rng_ok rev_rng \<and> (0::int) \<le> 2 \<and>
   int (label_count demo_crops 0) \<le> 2 \<and> int (label_count demo_crops 1) \<le> 2 \<and>
   (\<exists>out g'. subsample_const_size rev_rng 0 demo_crops 2 = Inr (out, g') \<and>
      label_count out 0 = 1 \<and> label_count out 1 = 2 \<and> mset out = mset demo_crops)"
proof -
  have h: "(0::int) \<le> 2" by simp
  have c: "int (label_count demo_crops 0) \<le> 2 \<and> int (label_count demo_crops 1) \<le> 2"
    by (simp add: label_count_def demo_crops_def)
  have s: "set (map label demo_crops) = {0, 1}" by (auto simp: demo_crops_def)
  from subsample_bound [OF rng_ok_rev_rng h, of 0 demo_crops]
  obtain out g' where r: "subsample_const_size rev_rng 0 demo_crops 2 = Inr (out, g')"
    "\<forall>L \<in> {0, 1}. int (label_count out L) = min (int (label_count demo_crops L)) 2"
    "(\<forall>L \<in> {0, 1}. int (label_count demo_crops L) \<le> 2) \<longrightarrow> mset out = mset demo_crops"
    unfolding s by blast
  have "label_count out 0 = 1 \<and> label_count out 1 = 2"
    using r(2) by (simp add: label_count_def demo_crops_def)
  moreover have "mset out = mset demo_crops" using r(3) c by simp
  ultimately show ?thesis using rng_ok_rev_rng h c r(1) by blast
qed

text \<open>
  Claim C3 at a concrete input: size 1 on the demo population, where label 1 has two items.
\<close>

theorem subsample_no_duplication_witness:
  "rng_ok rev_rng \<and> (0::int) \<le> 1 \<and> 1 \<le> int (label_count demo_crops 1) \<and>
   (\<exists>idxs g'. subsample_const_size rev_rng (0::nat) demo_crops 1 = Inr (map ((!) demo_crops) idxs, g') \<and>
      distinct idxs \<and> length [i \<leftarrow> idxs. label (demo_crops ! i) = 1] = 1)"
proof -
  have h: "(0::int) \<le> 1" by simp
  have c: "1 \<le> int (label_count demo_crops 1)"
    by (simp add: label_count_def demo_crops_def)
  have m: "1 \<in> set (map label demo_crops)" by (simp add: demo_crops_def)
  from subsample_no_duplication [OF rng_ok_rev_rng h, of 0 demo_crops]
  obtain idxs g' where r:
    "subsample_const_size rev_rng 0 demo_crops 1 = Inr (map ((!) demo_crops) idxs, g')"
    "distinct idxs"
    "\<forall>L \<in> set (map label demo_crops). 1 \<le> int (label_count demo_crops L) \<longrightarrow>
        length [i \<leftarrow> idxs. label (demo_crops ! i) = L] = nat 1"
    by blast
  from r(3) m c have "length [i \<leftarrow> idxs. label (demo_crops ! i) = 1] = 1" by fastforce
  with rng_ok_rev_rng h c r(1,2) show ?thesis by blast
qed

text \<open>
  Claim C4 as stated fails: size \<open>-1\<close> on the demo population raises ValueError instead
  of returning an empty population.
\<close>

theorem subsample_negative_size_counterexample:
  "demo_crops \<noteq> [] \<and> (-1::int) \<le> 0 \<and>
   subsample_const_size rev_rng (0::nat) demo_crops (-1) = Inl ValueError"
  by (simp add: demo_crops_def subsample_const_size_def unique_def choose_indices_def
      count_eq_def random_choice_def Let_def)

text \<open>
  The amended claim C4 at concrete inputs: sizes \<open>0\<close> and \<open>-1\<close> on the demo population.
\<close>

theorem subsample_degenerate_size_witness:
  "(0::int) = 0 \<and> (\<exists>g'. subsample_const_size rev_rng (0::nat) demo_crops 0 = Inr ([], g')) \<and>
   (-1::int) < 0 \<and> demo_crops \<noteq> [] \<and>
   subsample_const_size rev_rng (0::nat) demo_crops (-1) = Inl ValueError"
proof -
  have ne: "demo_crops \<noteq> []" by (simp add: demo_crops_def)
  have "\<exists>g'. subsample_const_size rev_rng (0::nat) demo_crops 0 = Inr ([], g')"
    using subsample_degenerate_size [where sz = 0 and permutation = rev_rng and g = 0 and crops = demo_crops] by simp
  moreover have "subsample_const_size rev_rng (0::nat) demo_crops (-1) = Inl ValueError"
    using subsample_degenerate_size [where sz = "-1" and permutation = rev_rng and g = 0 and crops = demo_crops] ne by simp
  ultimately show ?thesis using ne by simp
qed

section \<open>Properties of define_sampler\<close>

lemma sum_count_eq:
  assumes "distinct ls" "set cats \<subseteq> set ls"
  shows "sum_list (map (count_eq cats) ls) = length cats"
  using assms(2)
proof (induction cats)
  case Nil
  then show ?case by (simp add: count_eq_def)
next
  case (Cons a xs)
  have c: "count_eq (a # xs) t = count_eq xs t + (if a = t then 1 else 0)" for t
    by (simp add: count_eq_def)
  have "sum_list (map (\<lambda>t. if a = t then 1 else 0) ls) = (1::nat)"
    using assms(1) Cons.prems by (simp add: sum_list_distinct_conv_sum_set)
  then show ?case using Cons by (simp add: c sum_list_addf)
qed

lemma total_count: "sum_list (map snd (class_sample_count cats)) = length cats"
  using sum_count_eq [OF distinct_unique, of cats cats]
  by (simp add: class_sample_count_def comp_def set_unique)

lemma count_eq_pos: "t \<in> set cats \<Longrightarrow> 0 < count_eq cats t"
  by (simp add: count_eq_def filter_empty_conv)

lemma weight_dict_ok:
  "\<forall>t \<in> set ls. f t \<noteq> 0 \<Longrightarrow>
   weight_dict dv n (map (\<lambda>t. (t, f t)) ls) = Inr (map (\<lambda>t. (t, dv n (f t))) ls)"
  by (induction ls) auto

lemma lookup_weights_ok:
  "set ts \<subseteq> set ls \<Longrightarrow> lookup_weights (map (\<lambda>t. (t, w t)) ls) ts = Inr (map w ts)"
proof (induction ts)
  case Nil
  then show ?case by simp
next
  case (Cons t ts)
  then have "map_of (map (\<lambda>t. (t, w t)) ls) t = Some (w t)"
    by (simp add: map_of_map_restrict)
  then show ?case using Cons by simp
qed

lemma category_weights_eq:
  "category_weights dv cats = Inr (map (\<lambda>c. dv (length cats) (count_eq cats c)) cats)"
proof -
  have nz: "\<forall>t \<in> set (unique cats). count_eq cats t \<noteq> 0"
    using count_eq_pos [of _ cats] by (auto simp: set_unique)
  have "weight_dict dv (length cats) (class_sample_count cats) =
          Inr (map (\<lambda>t. (t, dv (length cats) (count_eq cats t))) (unique cats))"
    unfolding class_sample_count_def using nz by (rule weight_dict_ok)
  moreover have "lookup_weights
      (map (\<lambda>t. (t, dv (length cats) (count_eq cats t))) (unique cats)) cats =
      Inr (map (\<lambda>c. dv (length cats) (count_eq cats c)) cats)"
    by (rule lookup_weights_ok) (simp add: set_unique)
  ultimately show ?thesis
    by (simp add: category_weights_def total_count)
qed

lemma lookup_categories_KeyError:
  "lookup_categories hm ls = Inl e \<Longrightarrow> e = KeyError"
  by (induction ls arbitrary: e) (auto split: option.splits sum.splits)

lemma lookup_categories_fails_iff:
  "(\<exists>e. lookup_categories hm ls = Inl e) \<longleftrightarrow> (\<exists>l \<in> set ls. hm (str l) = None)"
  by (induction ls) (auto split: option.splits sum.splits)

lemma lookup_categories_ok:
  "\<forall>l \<in> set ls. hm (str l) \<noteq> None \<Longrightarrow>
   lookup_categories hm ls = Inr (map (\<lambda>l. the (hm (str l))) ls)"
  by (induction ls) (auto split: option.splits sum.splits)

lemma sum_by_category:
  fixes f :: "'c \<Rightarrow> rat"
  assumes "distinct ls" "set xs \<subseteq> set ls"
  shows "sum_list (map f xs) = sum_list (map (\<lambda>t. of_nat (count_eq xs t) * f t) ls)"
  using assms(2)
proof (induction xs)
  case Nil
  then show ?case by (simp add: count_eq_def)
next
  case (Cons a xs)
  have c: "of_nat (count_eq (a # xs) t) * f t =
           of_nat (count_eq xs t) * f t + (if a = t then f t else 0)" for t
    by (simp add: count_eq_def algebra_simps)
  have "sum_list (map (\<lambda>t. if a = t then f t else 0) ls) = f a"
    using assms(1) Cons.prems by (simp add: sum_list_distinct_conv_sum_set)
  then show ?case using Cons by (simp add: c sum_list_addf)
qed

lemma sum_inverse_frequency:
  "sum_list (map (\<lambda>c. exact_truediv (length cats) (count_eq cats c)) cats) =
     of_nat (length cats) * of_nat (card (set cats))"
proof -
  let ?f = "\<lambda>c. (of_nat (length cats) / of_nat (count_eq cats c) :: rat)"
  have "sum_list (map ?f cats) = sum_list (map (\<lambda>t. of_nat (count_eq cats t) * ?f t) (remdups cats))"
    by (rule sum_by_category) simp_all
  also have "map (\<lambda>t. of_nat (count_eq cats t) * ?f t) (remdups cats) =
             map (\<lambda>t. of_nat (length cats)) (remdups cats)"
    using count_eq_pos [of _ cats] by fastforce
  also have "sum_list (map (\<lambda>t. of_nat (length cats) :: rat) (remdups cats)) =
             of_nat (length (remdups cats)) * of_nat (length cats)"
    by (simp add: sum_list_triv)
  finally show ?thesis by (simp add: mult.commute length_remdups_card_conv exact_truediv_def)
qed

lemma samples_weight_None:
  "samples_weight dv crops None = category_weights dv (map label crops)"
  by (simp add: samples_weight_def)

lemma samples_weight_Some:
  "lookup_categories hm (map label crops) = Inr cats \<Longrightarrow>
   samples_weight dv crops (Some hm) = category_weights dv cats"
  by (simp add: samples_weight_def)

lemma define_sampler_of_weights:
  "samples_weight dv crops h = Inr ws \<Longrightarrow> ws \<noteq> [] \<Longrightarrow>
   define_sampler dv crops h = Inr \<lparr>weights = ws, num_samples = int (length ws), replacement = True\<rparr>"
  by (simp add: define_sampler_def WeightedRandomSampler_def)

lemma length_lookup_categories:
  "lookup_categories hm ls = Inr cats \<Longrightarrow> length cats = length ls"
  by (induction ls arbitrary: cats) (auto split: option.splits sum.splits)

lemma define_sampler_nonempty:
  assumes "samples_weight dv crops h = Inr (map w cats)" "length cats = length crops"
  shows "crops \<noteq> [] \<longrightarrow> define_sampler dv crops h =
           Inr \<lparr>weights = map w cats, num_samples = int (length crops), replacement = True\<rparr>"
proof
  assume "crops \<noteq> []"
  then have "map w cats \<noteq> []" using assms(2) by auto
  then show "define_sampler dv crops h =
           Inr \<lparr>weights = map w cats, num_samples = int (length crops), replacement = True\<rparr>"
    using define_sampler_of_weights [OF assms(1)] assms(2) by simp
qed

lemma category_weights_map:
  "category_weights dv cats = Inr (map (category_weight dv cats) cats)"
proof -
  have "map (category_weight dv cats) cats = map (\<lambda>c. dv (length cats) (count_eq cats c)) cats"
    by (simp add: category_weight_def)
  then show ?thesis by (simp add: category_weights_eq)
qed

lemma equal_expectation_exact:
  "equal_expectation cats (category_weight exact_truediv cats)"
  using count_eq_pos [of _ cats]
  by (fastforce simp: equal_expectation_def exact_truediv_def category_weight_def)

lemma bitlen_pos: "0 < n \<Longrightarrow> 0 < bitlen n"
  by (subst bitlen.simps) simp

lemma bitlen_lower: "0 < n \<Longrightarrow> 2 ^ (bitlen n - 1) \<le> n"
proof (induction n rule: bitlen.induct)
  case (1 n)
  show ?case
  proof (cases "n div 2 = 0")
    case True
    then have "bitlen n = 1" using 1(2) by (subst bitlen.simps, subst bitlen.simps) simp
    then show ?thesis using 1(2) by simp
  next
    case False
    then have p: "0 < n div 2" using 1(2) by simp
    then have ih: "2 ^ (bitlen (n div 2) - 1) \<le> n div 2" using 1 by simp
    have b: "bitlen n = Suc (bitlen (n div 2))" using 1(2) by (subst bitlen.simps) simp
    have "bitlen n - 1 = Suc (bitlen (n div 2) - 1)"
      using b bitlen_pos [OF p] by simp
    then have "(2::int) ^ (bitlen n - 1) = 2 * 2 ^ (bitlen (n div 2) - 1)" by simp
    also have "\<dots> \<le> 2 * (n div 2)" using ih by simp
    also have "\<dots> \<le> n" by simp
    finally show ?thesis .
  qed
qed

lemma bitlen_upper: "0 < n \<Longrightarrow> n < 2 ^ bitlen n"
proof (induction n rule: bitlen.induct)
  case (1 n)
  have b: "bitlen n = Suc (bitlen (n div 2))" using 1(2) by (subst bitlen.simps) simp
  show ?case
  proof (cases "n div 2 = 0")
    case True
    then have "n = 1" using 1(2) by presburger
    moreover have "(1::int) \<le> 2 ^ bitlen (n div 2)" by simp
    then have "(1::int) < 2 * 2 ^ bitlen (n div 2)" by linarith
    ultimately show ?thesis using b by simp
  next
    case False
    then have p: "0 < n div 2" using 1(2) by simp
    then have "n div 2 < 2 ^ bitlen (n div 2)" using 1 by simp
    then have "n div 2 + 1 \<le> 2 ^ bitlen (n div 2)" by simp
    then have "2 * (n div 2) + 2 \<le> 2 * 2 ^ bitlen (n div 2)" by simp
    moreover have "n < 2 * (n div 2) + 2" by presburger
    ultimately show ?thesis using b by simp
  qed
qed

text \<open>Rounding to the nearest integer moves a quotient by at most one half.\<close>

lemma round_half_even_error:
  assumes "0 < q"
  shows "\<bar>2 * (round_half_even p q * q - p)\<bar> \<le> q"
proof -
  have d: "p = (p div q) * q + p mod q" by simp
  have r: "0 \<le> p mod q" "p mod q < q" using assms by simp_all
  define f where "f = p div q"
  define r where "r = p mod q"
  have p: "p = f * q + r" and r0: "0 \<le> r" and r1: "r < q"
    using d r by (simp_all add: f_def r_def)
  have "round_half_even p q = (if 2 * r < q then f else if q < 2 * r then f + 1
                               else if even f then f else f + 1)"
    by (simp add: round_half_even_def Let_def f_def r_def)
  then consider "round_half_even p q = f" "2 * r \<le> q"
    | "round_half_even p q = f + 1" "q \<le> 2 * r"
    by (auto split: if_splits)
  then show ?thesis
  proof cases
    case 1
    then show ?thesis using p r0 by (simp add: algebra_simps)
  next
    case 2
    then show ?thesis using p r1 by (simp add: algebra_simps)
  qed
qed

text \<open>The scaled quotient that \<open>double_div\<close> rounds is at least \<open>2^52\<close>.\<close>

lemma scaling_lower:
  assumes "0 < n" "0 < v"
  defines "s0 \<equiv> 53 + int (bitlen v) - int (bitlen n)"
  defines "s \<equiv> (if v * 2 ^ 53 * 2 ^ nat (- s0) \<le> n * 2 ^ nat s0 then s0 - 1 else s0)"
  shows "2 ^ 52 * (v * 2 ^ nat (- s)) \<le> n * 2 ^ nat s"
proof (cases "v * 2 ^ 53 * 2 ^ nat (- s0) \<le> n * 2 ^ nat s0")
  case True
  then have s: "s = s0 - 1" by (simp add: s_def)
  show ?thesis
  proof (cases "1 \<le> s0")
    case True
    then have "nat (- s0) = 0" "nat (- s) = 0" "nat s0 = Suc (nat s)" using s by simp_all
    then show ?thesis using \<open>v * 2 ^ 53 * 2 ^ nat (- s0) \<le> n * 2 ^ nat s0\<close> by simp
  next
    case False
    then have "nat s0 = 0" "nat s = 0" "nat (- s) = Suc (nat (- s0))" using s by simp_all
    then show ?thesis using \<open>v * 2 ^ 53 * 2 ^ nat (- s0) \<le> n * 2 ^ nat s0\<close> by simp
  qed
next
  case False
  then have s: "s = s0" by (simp add: s_def)
  have bn: "0 < bitlen n" using assms(1) by (rule bitlen_pos)
  have lo: "2 ^ (bitlen n - 1) \<le> n" using assms(1) by (rule bitlen_lower)
  have up: "v \<le> 2 ^ bitlen v" using bitlen_upper [OF assms(2)] by simp
  show ?thesis
  proof (cases "0 \<le> s0")
    case True
    then have e: "(bitlen n - 1) + nat s0 = 52 + bitlen v" using bn by (simp add: s0_def)
    have "2 ^ 52 * (v * 2 ^ nat (- s)) = 2 ^ 52 * v" using True s by simp
    also have "\<dots> \<le> 2 ^ 52 * 2 ^ bitlen v" using up by simp
    also have "\<dots> = (2::int) ^ (bitlen n - 1) * 2 ^ nat s0"
      by (simp only: power_add [symmetric] e)
    also have "\<dots> \<le> n * 2 ^ nat s0" using lo by (simp add: mult_right_mono)
    finally show ?thesis using s by simp
  next
    case False
    then have e: "52 + bitlen v + nat (- s0) = bitlen n - 1" using bn by (simp add: s0_def)
    have "2 ^ 52 * (v * 2 ^ nat (- s)) = 2 ^ 52 * v * 2 ^ nat (- s0)" using s by simp
    also have "\<dots> \<le> 2 ^ 52 * 2 ^ bitlen v * 2 ^ nat (- s0)" using up by (simp add: mult_right_mono)
    also have "\<dots> = (2::int) ^ (bitlen n - 1)"
      by (simp only: power_add [symmetric] e)
    also have "\<dots> \<le> n" by (rule lo)
    finally show ?thesis using s False by simp
  qed
qed

text \<open>
  The relative error of binary64 division: the quotient of \<open>n\<close> by \<open>v\<close>, multiplied back
  by \<open>v\<close>, misses \<open>n\<close> by at most \<open>n / 2^53\<close>.
\<close>

lemma double_div_error:
  assumes "0 < n" "0 < v"
  shows "\<bar>of_int v * double_div n v - of_int n\<bar> \<le> (of_int n :: rat) / 2 ^ 53"
proof -
  define s0 where "s0 = 53 + int (bitlen v) - int (bitlen n)"
  define s where "s = (if v * 2 ^ 53 * 2 ^ nat (- s0) \<le> n * 2 ^ nat s0 then s0 - 1 else s0)"
  define A where "A = n * 2 ^ nat s"
  define B where "B = v * 2 ^ nat (- s)"
  define m where "m = round_half_even A B"
  have dd: "double_div n v = of_int m * 2 ^ nat (- s) / 2 ^ nat s"
    using assms(1) by (simp add: double_div_def Let_def s0_def s_def A_def B_def m_def)
  have Bpos: "0 < B" using assms(2) by (simp add: B_def)
  have low: "2 ^ 52 * B \<le> A"
    using scaling_lower [OF assms] unfolding A_def B_def s_def s0_def .
  have err: "\<bar>2 * (m * B - A)\<bar> \<le> B" unfolding m_def using Bpos by (rule round_half_even_error)
  have "2 * \<bar>m * B - A\<bar> \<le> B" using err by linarith
  then have i: "\<bar>m * B - A\<bar> * 2 ^ 53 \<le> A" using low by simp
  have "(of_int (\<bar>m * B - A\<bar> * 2 ^ 53) :: rat) \<le> of_int A" using i by (simp only: of_int_le_iff)
  then have r: "\<bar>of_int m * of_int B - (of_int A :: rat)\<bar> * 2 ^ 53 \<le> of_int A" by simp
  have a: "(2::rat) ^ nat s > 0" by simp
  have "of_int v * double_div n v - (of_int n :: rat) =
        (of_int m * of_int B - of_int A) / 2 ^ nat s"
    by (simp add: dd A_def B_def field_simps)
  then have "\<bar>of_int v * double_div n v - (of_int n :: rat)\<bar> * 2 ^ 53 =
        \<bar>of_int m * of_int B - (of_int A :: rat)\<bar> * 2 ^ 53 / 2 ^ nat s"
    by (simp add: abs_divide)
  also have "\<dots> \<le> of_int A / 2 ^ nat s" using r a by (simp add: divide_right_mono)
  also have "\<dots> = of_int n" by (simp add: A_def)
  finally show ?thesis by (simp add: field_simps)
qed

lemma py_truediv_error:
  assumes "0 < v"
  shows "\<bar>of_nat v * py_truediv n v - of_nat n\<bar> \<le> (of_nat n :: rat) / 2 ^ 53"
proof (cases "n = 0")
  case True
  then show ?thesis by (simp add: py_truediv_def double_div_def)
next
  case False
  then have "\<bar>of_int (int v) * double_div (int n) (int v) - of_int (int n)\<bar>
               \<le> (of_int (int n) :: rat) / 2 ^ 53"
    using assms by (intro double_div_error) simp_all
  then show ?thesis by (simp add: py_truediv_def)
qed

lemma near_expectation_py:
  "near_expectation cats (category_weight py_truediv cats)"
  unfolding near_expectation_def
proof (intro ballI conjI)
  have b: "\<bar>of_nat (count_eq cats c) * category_weight py_truediv cats c - of_nat (length cats)\<bar>
             \<le> of_nat (length cats) / 2 ^ 53" if "c \<in> set cats" for c
    unfolding category_weight_def using count_eq_pos [OF that] by (rule py_truediv_error)
  fix c1 c2 assume c: "c1 \<in> set cats" "c2 \<in> set cats"
  show "\<bar>of_nat (count_eq cats c2) * category_weight py_truediv cats c2 - of_nat (length cats)\<bar>
          \<le> of_nat (length cats) / 2 ^ 53"
    using c(2) by (rule b)
  define x :: rat where "x = of_nat (length cats) / 2 ^ 53"
  have "(of_nat (length cats) :: rat) / 2 ^ 52 = x + x" by (simp add: x_def)
  then show "\<bar>of_nat (count_eq cats c1) * category_weight py_truediv cats c1 -
              of_nat (count_eq cats c2) * category_weight py_truediv cats c2\<bar>
          \<le> of_nat (length cats) / 2 ^ 52"
    using b [OF c(1)] b [OF c(2)] unfolding x_def [symmetric] by linarith
qed

lemma samples_weight_categories:
  assumes "samples_weight dv crops h = category_weights dv cats" "length cats = length crops"
  shows "samples_weight dv crops h = Inr (map (category_weight dv cats) cats) \<and>
         (crops \<noteq> [] \<longrightarrow> define_sampler dv crops h =
            Inr \<lparr>weights = map (category_weight dv cats) cats,
                 num_samples = int (length crops), replacement = True\<rparr>)"
proof -
  have 1: "samples_weight dv crops h = Inr (map (category_weight dv cats) cats)"
    using assms(1) by (simp add: category_weights_map)
  show ?thesis using 1 define_sampler_nonempty [OF 1 assms(2)] by blast
qed

lemma weighting_invariants:
  assumes "\<And>dv. samples_weight dv crops h = category_weights dv cats"
    "length cats = length crops"
  shows "samples_weight py_truediv crops h = Inr (map (category_weight py_truediv cats) cats) \<and>
         near_expectation cats (category_weight py_truediv cats) \<and>
         (crops \<noteq> [] \<longrightarrow> define_sampler py_truediv crops h =
            Inr \<lparr>weights = map (category_weight py_truediv cats) cats,
                 num_samples = int (length crops), replacement = True\<rparr>) \<and>
         samples_weight exact_truediv crops h =
            Inr (map (category_weight exact_truediv cats) cats) \<and>
         equal_expectation cats (category_weight exact_truediv cats)"
  using samples_weight_categories [OF assms(1) assms(2), of py_truediv]
    samples_weight_categories [OF assms(1) assms(2), of exact_truediv]
    near_expectation_py [of cats] equal_expectation_exact [of cats]
  by blast

text \<open>
  Claim C2 (equal expectation). The weight vector gives every item the weight of its
  category \<open>c\<close>, the quotient of the number of items by the count of \<open>c\<close>. With the
  binary64 division of Python the product of count and weight misses the number of
  items \<open>N\<close> by at most \<open>N / 2^53\<close> for every present category, so that the products of
  two present categories differ by at most \<open>N / 2^52\<close>; with exact division the products
  agree and equal \<open>N\<close>. The categories are the labels when no dictionary is given, and the
  looked-up values otherwise. For a population that is not empty the sampler returned
  by \<open>define_sampler\<close> carries the binary64 weight vector.
\<close>

theorem weighting_equal_expectation:
  fixes crops :: "'a crop list" and hm :: "string \<rightharpoonup> 'c::linorder"
  shows "(samples_weight py_truediv crops (None :: (string \<rightharpoonup> 'c) option) =
            Inr (map (category_weight py_truediv (map label crops)) (map label crops)) \<and>
          near_expectation (map label crops) (category_weight py_truediv (map label crops)) \<and>
          (crops \<noteq> [] \<longrightarrow>
             define_sampler py_truediv crops (None :: (string \<rightharpoonup> 'c) option) =
             Inr \<lparr>weights = map (category_weight py_truediv (map label crops)) (map label crops),
                  num_samples = int (length crops), replacement = True\<rparr>) \<and>
          samples_weight exact_truediv crops (None :: (string \<rightharpoonup> 'c) option) =
            Inr (map (category_weight exact_truediv (map label crops)) (map label crops)) \<and>
          equal_expectation (map label crops) (category_weight exact_truediv (map label crops))) \<and>
         (\<forall>cats. lookup_categories hm (map label crops) = Inr cats \<longrightarrow>
            samples_weight py_truediv crops (Some hm) =
              Inr (map (category_weight py_truediv cats) cats) \<and>
            near_expectation cats (category_weight py_truediv cats) \<and>
            (crops \<noteq> [] \<longrightarrow> define_sampler py_truediv crops (Some hm) =
               Inr \<lparr>weights = map (category_weight py_truediv cats) cats,
                    num_samples = int (length crops), replacement = True\<rparr>) \<and>
            samples_weight exact_truediv crops (Some hm) =
              Inr (map (category_weight exact_truediv cats) cats) \<and>
            equal_expectation cats (category_weight exact_truediv cats))"
proof (rule conjI)
  show "samples_weight py_truediv crops (None :: (string \<rightharpoonup> 'c) option) =
            Inr (map (category_weight py_truediv (map label crops)) (map label crops)) \<and>
          near_expectation (map label crops) (category_weight py_truediv (map label crops)) \<and>
          (crops \<noteq> [] \<longrightarrow>
             define_sampler py_truediv crops (None :: (string \<rightharpoonup> 'c) option) =
             Inr \<lparr>weights = map (category_weight py_truediv (map label crops)) (map label crops),
                  num_samples = int (length crops), replacement = True\<rparr>) \<and>
          samples_weight exact_truediv crops (None :: (string \<rightharpoonup> 'c) option) =
            Inr (map (category_weight exact_truediv (map label crops)) (map label crops)) \<and>
          equal_expectation (map label crops) (category_weight exact_truediv (map label crops))"
    by (rule weighting_invariants) (simp_all add: samples_weight_None)
next
  have "samples_weight py_truediv crops (Some hm) =
              Inr (map (category_weight py_truediv cats) cats) \<and>
            near_expectation cats (category_weight py_truediv cats) \<and>
            (crops \<noteq> [] \<longrightarrow> define_sampler py_truediv crops (Some hm) =
               Inr \<lparr>weights = map (category_weight py_truediv cats) cats,
                    num_samples = int (length crops), replacement = True\<rparr>) \<and>
            samples_weight exact_truediv crops (Some hm) =
              Inr (map (category_weight exact_truediv cats) cats) \<and>
            equal_expectation cats (category_weight exact_truediv cats)"
    if l: "lookup_categories hm (map label crops) = Inr cats" for cats
    using samples_weight_Some [OF l] length_lookup_categories [OF l]
    by (intro weighting_invariants) simp_all
  then show "\<forall>cats. lookup_categories hm (map label crops) = Inr cats \<longrightarrow>
            samples_weight py_truediv crops (Some hm) =
              Inr (map (category_weight py_truediv cats) cats) \<and>
            near_expectation cats (category_weight py_truediv cats) \<and>
            (crops \<noteq> [] \<longrightarrow> define_sampler py_truediv crops (Some hm) =
               Inr \<lparr>weights = map (category_weight py_truediv cats) cats,
                    num_samples = int (length crops), replacement = True\<rparr>) \<and>
            samples_weight exact_truediv crops (Some hm) =
              Inr (map (category_weight exact_truediv cats) cats) \<and>
            equal_expectation cats (category_weight exact_truediv cats)"
    by blast
qed

lemma all_labels_binary:
  assumes "length crops = 100" "label_count crops 0 = 80" "label_count crops 1 = 20"
  shows "\<forall>c \<in> set crops. label c = 0 \<or> label c = 1"
proof (rule ccontr)
  assume "\<not> (\<forall>c \<in> set crops. label c = 0 \<or> label c = 1)"
  then obtain c where c: "c \<in> set crops" "label c \<noteq> 0" "label c \<noteq> 1" by blast
  let ?rest = "[c \<leftarrow> crops. label c \<noteq> 0]"
  have "length [c \<leftarrow> crops. label c = 0] + length ?rest = length crops"
    by (rule sum_length_filter_compl)
  then have r: "length ?rest = 20" using assms(1,2) by (simp add: label_count_def)
  have "c \<in> set ?rest" using c by simp
  then have "length [c \<leftarrow> ?rest. label c = 1] < length ?rest"
    using c(3) by (rule length_filter_less)
  moreover have "[c \<leftarrow> ?rest. label c = 1] = [c \<leftarrow> crops. label c = 1]"
    by (auto intro: filter_cong)
  ultimately show False using r assms(3) by (simp add: label_count_def)
qed

lemma py_truediv_100: "py_truediv 100 80 = 5 / 4" "py_truediv 100 20 = 5"
  by (simp_all add: py_truediv_def) code_simp+

text \<open>
  Claim C5 (identity map). Without a dictionary every item of label \<open>l\<close> gets the weight
  that Python's division returns for \<open>total / count l\<close>; a population of 100 items with 80
  of label 0 and 20 of label 1 gets the weights \<open>5/4\<close> (that is 1.25) and \<open>5\<close>, both
  binary64 numbers.
\<close>

theorem identity_map_weighting:
  fixes crops :: "'a crop list"
  shows "samples_weight py_truediv crops (None :: (string \<rightharpoonup> 'c::linorder) option) =
           Inr (map (\<lambda>c. py_truediv (length crops) (label_count crops (label c))) crops) \<and>
         (crops \<noteq> [] \<longrightarrow> define_sampler py_truediv crops (None :: (string \<rightharpoonup> 'c) option) =
            Inr \<lparr>weights = map (\<lambda>c. py_truediv (length crops) (label_count crops (label c))) crops,
                 num_samples = int (length crops), replacement = True\<rparr>) \<and>
         (length crops = 100 \<and> label_count crops 0 = 80 \<and> label_count crops 1 = 20 \<longrightarrow>
            define_sampler py_truediv crops (None :: (string \<rightharpoonup> 'c) option) =
            Inr \<lparr>weights = map (\<lambda>c. if label c = 0 then 5 / 4 else 5) crops,
                 num_samples = 100, replacement = True\<rparr>)"
proof -
  let ?N = "None :: (string \<rightharpoonup> 'c) option"
  let ?w = "\<lambda>c. py_truediv (length crops) (label_count crops (label c))"
  have 0: "samples_weight py_truediv crops ?N =
             Inr (map (\<lambda>l. py_truediv (length (map label crops)) (count_eq (map label crops) l))
                    (map label crops))"
    by (simp add: samples_weight_None category_weights_eq)
  have 1: "samples_weight py_truediv crops ?N = Inr (map ?w crops)"
    using 0 by (simp add: count_eq_labels comp_def)
  have 2: "crops \<noteq> [] \<longrightarrow> define_sampler py_truediv crops ?N =
            Inr \<lparr>weights = map ?w crops, num_samples = int (length crops), replacement = True\<rparr>"
    using define_sampler_nonempty [OF 1] by simp
  have 3: "length crops = 100 \<and> label_count crops 0 = 80 \<and> label_count crops 1 = 20 \<longrightarrow>
            define_sampler py_truediv crops ?N =
            Inr \<lparr>weights = map (\<lambda>c. if label c = 0 then 5 / 4 else 5) crops,
                 num_samples = 100, replacement = True\<rparr>"
  proof
    assume a: "length crops = 100 \<and> label_count crops 0 = 80 \<and> label_count crops 1 = 20"
    then have b: "\<forall>c \<in> set crops. label c = 0 \<or> label c = 1"
      using all_labels_binary by blast
    have "map ?w crops = map (\<lambda>c. if label c = 0 then 5 / 4 else 5) crops"
      using a b by (intro map_cong) (auto simp: py_truediv_100)
    moreover have "crops \<noteq> []" using a by auto
    ultimately show "define_sampler py_truediv crops ?N =
            Inr \<lparr>weights = map (\<lambda>c. if label c = 0 then 5 / 4 else 5) crops,
                 num_samples = 100, replacement = True\<rparr>"
      using 2 a by simp
  qed
  show ?thesis using 1 2 3 by blast
qed

lemma samples_weight_missing:
  assumes "\<exists>c \<in> set crops. hm (str (label c)) = None"
  shows "samples_weight dv crops (Some hm) = Inl KeyError"
proof -
  have "\<exists>l \<in> set (map label crops). hm (str l) = None" using assms by auto
  then obtain e where e: "lookup_categories hm (map label crops) = Inl e"
    using lookup_categories_fails_iff [of hm "map label crops"] by blast
  then have "e = KeyError" by (rule lookup_categories_KeyError)
  with e show ?thesis by (simp add: samples_weight_def)
qed

lemma samples_weight_present:
  assumes "\<forall>c \<in> set crops. hm (str (label c)) \<noteq> None"
  shows "lookup_categories hm (map label crops) = Inr (map (\<lambda>c. the (hm (str (label c)))) crops)"
proof -
  have "\<forall>l \<in> set (map label crops). hm (str l) \<noteq> None" using assms by auto
  then show ?thesis by (simp add: lookup_categories_ok comp_def)
qed

text \<open>
  Claim C6 (missing category). With a dictionary, \<open>define_sampler\<close> raises KeyError (the
  specification's MissingCategoryError) exactly when the string of some item's label is
  not a key. When every item's label has an entry, the weight vector is computed from
  the mapped categories, and for a population that is not empty \<open>define_sampler\<close>
  returns the sampler that carries it. This holds for every division.
\<close>

theorem missing_category_failure:
  fixes crops :: "'a crop list" and hm :: "string \<rightharpoonup> 'c::linorder"
  shows "(define_sampler truediv crops (Some hm) = Inl KeyError \<longleftrightarrow>
            (\<exists>c \<in> set crops. hm (str (label c)) = None)) \<and>
         ((\<forall>c \<in> set crops. hm (str (label c)) \<noteq> None) \<longrightarrow>
            (\<exists>cats ws. lookup_categories hm (map label crops) = Inr cats \<and>
               cats = map (\<lambda>c. the (hm (str (label c)))) crops \<and>
               ws = map (\<lambda>c. truediv (length cats) (count_eq cats c)) cats \<and>
               samples_weight truediv crops (Some hm) = Inr ws \<and>
               (crops \<noteq> [] \<longrightarrow> define_sampler truediv crops (Some hm) =
                  Inr \<lparr>weights = ws, num_samples = int (length crops), replacement = True\<rparr>)))"
proof -
  let ?cats = "map (\<lambda>c. the (hm (str (label c)))) crops"
  let ?ws = "map (\<lambda>c. truediv (length ?cats) (count_eq ?cats c)) ?cats"
  have present: "samples_weight truediv crops (Some hm) = Inr ?ws \<and>
      lookup_categories hm (map label crops) = Inr ?cats"
    if "\<forall>c \<in> set crops. hm (str (label c)) \<noteq> None"
    using samples_weight_present [OF that] samples_weight_Some [of hm crops ?cats truediv]
    by (simp add: category_weights_eq)
  have a: "define_sampler truediv crops (Some hm) = Inl KeyError"
    if "\<exists>c \<in> set crops. hm (str (label c)) = None"
    using samples_weight_missing [OF that] by (simp add: define_sampler_def)
  have b: "\<exists>c \<in> set crops. hm (str (label c)) = None"
    if k: "define_sampler truediv crops (Some hm) = Inl KeyError"
  proof (rule ccontr)
    assume "\<not> (\<exists>c \<in> set crops. hm (str (label c)) = None)"
    then have "\<forall>c \<in> set crops. hm (str (label c)) \<noteq> None" by simp
    then have "samples_weight truediv crops (Some hm) = Inr ?ws" by (simp add: present)
    then show False using k
      by (simp add: define_sampler_def WeightedRandomSampler_def split: if_splits)
  qed
  have c: "crops \<noteq> [] \<longrightarrow> define_sampler truediv crops (Some hm) =
                  Inr \<lparr>weights = ?ws, num_samples = int (length crops), replacement = True\<rparr>"
    if p: "\<forall>c \<in> set crops. hm (str (label c)) \<noteq> None"
  proof
    assume "crops \<noteq> []"
    then have "?ws \<noteq> []" by simp
    then show "define_sampler truediv crops (Some hm) =
                  Inr \<lparr>weights = ?ws, num_samples = int (length crops), replacement = True\<rparr>"
      using define_sampler_of_weights [of truediv crops "Some hm" ?ws] present [OF p] by simp
  qed
  show ?thesis using a b c present by blast
qed

lemma samples_weight_sum:
  assumes "samples_weight exact_truediv crops h = category_weights exact_truediv cats"
    "length cats = length crops"
  shows "\<exists>ws. samples_weight exact_truediv crops h = Inr ws \<and>
           sum_list ws = of_nat (length crops) * of_nat (card (set cats)) \<and>
           (crops \<noteq> [] \<longrightarrow> define_sampler exact_truediv crops h =
              Inr \<lparr>weights = ws, num_samples = int (length crops), replacement = True\<rparr>)"
proof -
  let ?w = "\<lambda>c. exact_truediv (length cats) (count_eq cats c)"
  have 1: "samples_weight exact_truediv crops h = Inr (map ?w cats)"
    using assms(1) by (simp add: category_weights_eq)
  have 3: "sum_list (map ?w cats) = of_nat (length crops) * of_nat (card (set cats))"
    using sum_inverse_frequency [of cats] assms(2) by simp
  show ?thesis using 1 define_sampler_nonempty [OF 1 assms(2)] 3 by blast
qed

text \<open>
  Claim C10 (weight sum). In exact arithmetic the weights sum to the number of items
  times the number of distinct categories present.
\<close>

theorem weight_sum_identity:
  fixes crops :: "'a crop list" and hm :: "string \<rightharpoonup> 'c::linorder"
  shows "(\<exists>ws. samples_weight exact_truediv crops (None :: (string \<rightharpoonup> 'c) option) = Inr ws \<and>
            sum_list ws = of_nat (length crops) * of_nat (card (set (map label crops))) \<and>
            (crops \<noteq> [] \<longrightarrow>
               define_sampler exact_truediv crops (None :: (string \<rightharpoonup> 'c) option) =
               Inr \<lparr>weights = ws, num_samples = int (length crops), replacement = True\<rparr>)) \<and>
         (\<forall>cats. lookup_categories hm (map label crops) = Inr cats \<longrightarrow>
            (\<exists>ws. samples_weight exact_truediv crops (Some hm) = Inr ws \<and>
               sum_list ws = of_nat (length crops) * of_nat (card (set cats)) \<and>
               (crops \<noteq> [] \<longrightarrow> define_sampler exact_truediv crops (Some hm) =
                  Inr \<lparr>weights = ws, num_samples = int (length crops), replacement = True\<rparr>)))"
proof (intro conjI allI impI)
  show "\<exists>ws. samples_weight exact_truediv crops (None :: (string \<rightharpoonup> 'c) option) = Inr ws \<and>
            sum_list ws = of_nat (length crops) * of_nat (card (set (map label crops))) \<and>
            (crops \<noteq> [] \<longrightarrow>
               define_sampler exact_truediv crops (None :: (string \<rightharpoonup> 'c) option) =
               Inr \<lparr>weights = ws, num_samples = int (length crops), replacement = True\<rparr>)"
    by (rule samples_weight_sum) (simp_all add: samples_weight_None)
next
  fix cats assume l: "lookup_categories hm (map label crops) = Inr cats"
  show "\<exists>ws. samples_weight exact_truediv crops (Some hm) = Inr ws \<and>
               sum_list ws = of_nat (length crops) * of_nat (card (set cats)) \<and>
               (crops \<noteq> [] \<longrightarrow> define_sampler exact_truediv crops (Some hm) =
                  Inr \<lparr>weights = ws, num_samples = int (length crops), replacement = True\<rparr>)"
    using samples_weight_Some [OF l] length_lookup_categories [OF l]
    by (intro samples_weight_sum) simp_all
qed

lemma str_small: "str 0 = ''0''" "str 1 = ''1''" "str 2 = ''2''"
  by (simp_all add: str_def)

lemma demo_lookup:
  "lookup_categories demo_hierarchy (map label demo_population) = Inr [10, 10, 10, 20]"
  by (simp add: demo_population_def demo_hierarchy_def str_small)

text \<open>
  Claim C10 on the demo population with the demo dictionary: 4 items, 2 categories,
  weights summing to 8.
\<close>

theorem weight_sum_identity_witness:
  "lookup_categories demo_hierarchy (map label demo_population) = Inr [10, 10, 10, 20] \<and>
   (\<exists>ws. samples_weight exact_truediv demo_population (Some demo_hierarchy) = Inr ws \<and>
      sum_list ws = 8)"
proof -
  have len: "length demo_population = 4" by (simp add: demo_population_def)
  have "card (set [10, 10, 10, 20 :: int]) = 2" by simp
  with weight_sum_identity [of demo_population demo_hierarchy] demo_lookup len
  show ?thesis by auto
qed

lemma py_truediv_4: "py_truediv 4 3 = 6004799503160661 / 2 ^ 52" "py_truediv 4 1 = 4"
  by (simp_all add: py_truediv_def) code_simp+

text \<open>
  Claim C2 on the demo population with the demo dictionary: the categories are
  10, 10, 10, 20. Python's weights are \<open>4 / 3\<close> rounded to binary64 and \<open>4\<close>; three times
  the first misses 4 by no more than \<open>4 / 2^53\<close>. In exact arithmetic
  \<open>3 * w 10 = 1 * w 20 = 4\<close>.
\<close>

theorem weighting_equal_expectation_witness:
  "demo_population \<noteq> [] \<and>
   lookup_categories demo_hierarchy (map label demo_population) = Inr [10, 10, 10, 20] \<and>
   define_sampler py_truediv demo_population (Some demo_hierarchy) =
     Inr \<lparr>weights = [6004799503160661 / 2 ^ 52, 6004799503160661 / 2 ^ 52,
                     6004799503160661 / 2 ^ 52, 4],
          num_samples = 4, replacement = True\<rparr> \<and>
   \<bar>3 * (6004799503160661 / 2 ^ 52) - 4 :: rat\<bar> \<le> 4 / 2 ^ 53 \<and>
   samples_weight exact_truediv demo_population (Some demo_hierarchy) =
     Inr [4 / 3, 4 / 3, 4 / 3, 4] \<and>
   3 * category_weight exact_truediv [10, 10, 10, 20 :: int] 10 = 4 \<and>
   1 * category_weight exact_truediv [10, 10, 10, 20 :: int] 20 = 4"
proof -
  let ?cats = "[10, 10, 10, 20 :: int]"
  have ne: "demo_population \<noteq> []" by (simp add: demo_population_def)
  have len: "int (length demo_population) = 4" by (simp add: demo_population_def)
  have cnt: "count_eq ?cats 10 = 3" "count_eq ?cats 20 = 1" "length ?cats = 4"
    by (simp_all add: count_eq_def)
  have wp: "category_weight py_truediv ?cats 10 = 6004799503160661 / 2 ^ 52"
    "category_weight py_truediv ?cats 20 = 4"
    unfolding category_weight_def cnt by (rule py_truediv_4)+
  have we: "category_weight exact_truediv ?cats 10 = 4 / 3"
    "category_weight exact_truediv ?cats 20 = 4"
    unfolding category_weight_def cnt by (simp_all add: exact_truediv_def)
  from weighting_equal_expectation [of demo_population demo_hierarchy] demo_lookup ne
  have r: "define_sampler py_truediv demo_population (Some demo_hierarchy) =
             Inr \<lparr>weights = map (category_weight py_truediv ?cats) ?cats,
                  num_samples = int (length demo_population), replacement = True\<rparr>"
    "near_expectation ?cats (category_weight py_truediv ?cats)"
    "samples_weight exact_truediv demo_population (Some demo_hierarchy) =
       Inr (map (category_weight exact_truediv ?cats) ?cats)"
    "equal_expectation ?cats (category_weight exact_truediv ?cats)"
    by blast+
  have 1: "define_sampler py_truediv demo_population (Some demo_hierarchy) =
     Inr \<lparr>weights = [6004799503160661 / 2 ^ 52, 6004799503160661 / 2 ^ 52,
                     6004799503160661 / 2 ^ 52, 4],
          num_samples = 4, replacement = True\<rparr>"
    using r(1) unfolding len by (simp only: list.map wp)
  have "\<bar>of_nat (count_eq ?cats 10) * category_weight py_truediv ?cats 10 - of_nat (length ?cats)\<bar>
          \<le> (of_nat (length ?cats) :: rat) / 2 ^ 53"
    using r(2) unfolding near_expectation_def by fastforce
  then have 2: "\<bar>3 * (6004799503160661 / 2 ^ 52) - 4 :: rat\<bar> \<le> 4 / 2 ^ 53"
    unfolding cnt wp by simp
  have 3: "samples_weight exact_truediv demo_population (Some demo_hierarchy) =
     Inr [4 / 3, 4 / 3, 4 / 3, 4]"
    using r(3) by (simp only: list.map we)
  have "of_nat (count_eq ?cats 10) * category_weight exact_truediv ?cats 10 = of_nat (length ?cats) \<and>
        of_nat (count_eq ?cats 20) * category_weight exact_truediv ?cats 20 = of_nat (length ?cats)"
    using r(4) unfolding equal_expectation_def by fastforce
  then have 4: "3 * category_weight exact_truediv ?cats 10 = 4 \<and>
                1 * category_weight exact_truediv ?cats 20 = 4"
    unfolding cnt by simp
  show ?thesis using ne demo_lookup 1 2 3 4 by blast
qed

text \<open>
  Claim C6 on the demo population with Python's division: a dictionary with the key
  \<open>''0''\<close> only misses the label 1 of the third item and raises KeyError; the demo
  dictionary succeeds, with the weights \<open>4 / 3\<close> rounded to binary64 and \<open>4\<close>.
\<close>

theorem missing_category_failure_witness:
  "[''0'' \<mapsto> (10::int)] (str (label (demo_population ! 2))) = None \<and>
   define_sampler py_truediv demo_population (Some [''0'' \<mapsto> (10::int)]) = Inl KeyError \<and>
   define_sampler py_truediv demo_population (Some demo_hierarchy) =
     Inr \<lparr>weights = [6004799503160661 / 2 ^ 52, 6004799503160661 / 2 ^ 52,
                     6004799503160661 / 2 ^ 52, 4],
          num_samples = 4, replacement = True\<rparr>"
proof -
  have m: "[''0'' \<mapsto> (10::int)] (str (label (demo_population ! 2))) = None"
    by (simp add: demo_population_def str_small)
  have "demo_population ! 2 \<in> set demo_population" by (simp add: demo_population_def)
  with m have "\<exists>c \<in> set demo_population. [''0'' \<mapsto> (10::int)] (str (label c)) = None" by blast
  then have 1: "define_sampler py_truediv demo_population (Some [''0'' \<mapsto> (10::int)]) = Inl KeyError"
    using missing_category_failure [of py_truediv demo_population "[''0'' \<mapsto> (10::int)]"] by blast
  have p: "\<forall>c \<in> set demo_population. demo_hierarchy (str (label c)) \<noteq> None"
    by (simp add: demo_population_def demo_hierarchy_def str_small)
  have ne: "demo_population \<noteq> []" by (simp add: demo_population_def)
  have cats: "map (\<lambda>c. the (demo_hierarchy (str (label c)))) demo_population = [10, 10, 10, 20]"
    by (simp add: demo_population_def demo_hierarchy_def str_small)
  from missing_category_failure [of py_truediv demo_population demo_hierarchy] p ne
  have d: "define_sampler py_truediv demo_population (Some demo_hierarchy) =
     Inr \<lparr>weights = map (\<lambda>c. py_truediv (length [10, 10, 10, 20 :: int]) (count_eq [10, 10, 10, 20] c)) [10, 10, 10, 20 :: int],
          num_samples = int (length demo_population), replacement = True\<rparr>"
    unfolding cats by blast
  have len: "length [10, 10, 10, 20 :: int] = 4" by simp
  have cnt: "count_eq [10, 10, 10, 20 :: int] 10 = 3" "count_eq [10, 10, 10, 20 :: int] 20 = 1"
    by (simp_all add: count_eq_def)
  have ws: "map (\<lambda>c. py_truediv (length [10, 10, 10, 20 :: int]) (count_eq [10, 10, 10, 20] c))
              [10, 10, 10, 20 :: int] =
            [6004799503160661 / 2 ^ 52, 6004799503160661 / 2 ^ 52, 6004799503160661 / 2 ^ 52, 4]"
    unfolding len by (simp only: list.map cnt py_truediv_4)
  have n: "int (length demo_population) = 4" by (simp add: demo_population_def)
  have 2: "define_sampler py_truediv demo_population (Some demo_hierarchy) =
     Inr \<lparr>weights = [6004799503160661 / 2 ^ 52, 6004799503160661 / 2 ^ 52,
                     6004799503160661 / 2 ^ 52, 4],
          num_samples = 4, replacement = True\<rparr>"
    using d unfolding ws n .
  show ?thesis using m 1 2 by blast
qed

text \<open>
  Claim C5 on the population of 80 items of label 0 followed by 20 of label 1.
\<close>

theorem identity_map_weighting_witness:
  "length demo_imbalanced = 100 \<and> label_count demo_imbalanced 0 = 80 \<and>
   label_count demo_imbalanced 1 = 20 \<and>
   define_sampler py_truediv demo_imbalanced (None :: (string \<rightharpoonup> int) option) =
     Inr \<lparr>weights = replicate 80 (5 / 4) @ replicate 20 5, num_samples = 100, replacement = True\<rparr>"
proof -
  have h: "length demo_imbalanced = 100 \<and> label_count demo_imbalanced 0 = 80 \<and>
           label_count demo_imbalanced 1 = 20"
    by (simp add: demo_imbalanced_def label_count_def)
  have "map (\<lambda>c. if label c = 0 then 5 / 4 else (5::rat)) demo_imbalanced =
        replicate 80 (5 / 4) @ replicate 20 5"
    by (simp add: demo_imbalanced_def)
  with identity_map_weighting [of demo_imbalanced, where 'c = int] h show ?thesis by simp
qed

lemma py_truediv_15: "py_truediv 15 11 = 6141272219141585 / 2 ^ 52" "py_truediv 15 4 = 15 / 4"
  by (simp_all add: py_truediv_def) code_simp+

lemma rounding_products:
  "11 * (6141272219141585 / 2 ^ 52 :: rat) \<noteq> 15"
  "round_double (11 * (6141272219141585 / 2 ^ 52)) = 8444249301319679 / 2 ^ 49"
  "(8444249301319679 / 2 ^ 49 :: rat) \<noteq> 15"
  by code_simp+

text \<open>
  Claim C2 as stated fails on the weights Python computes. For 11 items of label 0 and
  4 of label 1 the weight of label 0 is the binary64 number nearest to \<open>15 / 11\<close>, that is
  \<open>6141272219141585 / 2^52\<close> (printed 1.3636363636363635). Eleven times this weight is
  not 15, neither exactly nor after rounding the product to binary64 (printed
  14.999999999999998), while four times the weight \<open>3.75\<close> of label 1 is 15.
\<close>

theorem weighting_rounding_counterexample:
  "define_sampler py_truediv demo_rounding (None :: (string \<rightharpoonup> int) option) =
     Inr \<lparr>weights = replicate 11 (6141272219141585 / 2 ^ 52) @ replicate 4 (15 / 4),
          num_samples = 15, replacement = True\<rparr> \<and>
   count_eq (map label demo_rounding) 0 = 11 \<and> count_eq (map label demo_rounding) 1 = 4 \<and>
   11 * (6141272219141585 / 2 ^ 52 :: rat) \<noteq> 15 \<and>
   round_double (11 * (6141272219141585 / 2 ^ 52)) \<noteq> 15 \<and>
   \<not> equal_expectation (map label demo_rounding)
       (\<lambda>c. if c = 0 then 6141272219141585 / 2 ^ 52 else 15 / 4)"
proof -
  have len: "length demo_rounding = 15" by (simp add: demo_rounding_def)
  have c0: "label_count demo_rounding 0 = 11" and c1: "label_count demo_rounding 1 = 4"
    by (simp_all add: demo_rounding_def label_count_def)
  have ne: "demo_rounding \<noteq> []" using len by auto
  have "samples_weight py_truediv demo_rounding (None :: (string \<rightharpoonup> int) option) =
          Inr (map (\<lambda>l. py_truediv (length (map label demo_rounding))
                         (count_eq (map label demo_rounding) l)) (map label demo_rounding))"
    by (simp add: samples_weight_None category_weights_eq)
  then have w: "samples_weight py_truediv demo_rounding (None :: (string \<rightharpoonup> int) option) =
          Inr (map (\<lambda>c. py_truediv 15 (label_count demo_rounding (label c))) demo_rounding)"
    by (simp add: count_eq_labels comp_def len)
  have "map (\<lambda>c. py_truediv 15 (label_count demo_rounding (label c))) demo_rounding =
        replicate 11 (6141272219141585 / 2 ^ 52) @ replicate 4 (15 / 4)"
    unfolding demo_rounding_def [symmetric]
    by (simp add: demo_rounding_def c0 c1 py_truediv_15
        c0 [unfolded demo_rounding_def] c1 [unfolded demo_rounding_def])
  with w have 1: "define_sampler py_truediv demo_rounding (None :: (string \<rightharpoonup> int) option) =
     Inr \<lparr>weights = replicate 11 (6141272219141585 / 2 ^ 52) @ replicate 4 (15 / 4),
          num_samples = 15, replacement = True\<rparr>"
    by (simp add: define_sampler_def WeightedRandomSampler_def)
  have 2: "count_eq (map label demo_rounding) 0 = 11 \<and> count_eq (map label demo_rounding) 1 = 4"
    using c0 c1 by (simp add: count_eq_labels)
  have in0: "0 \<in> set (map label demo_rounding)" by (simp add: demo_rounding_def)
  have 3: "\<not> equal_expectation (map label demo_rounding)
       (\<lambda>c. if c = 0 then 6141272219141585 / 2 ^ 52 else 15 / 4)"
  proof
    assume "equal_expectation (map label demo_rounding)
       (\<lambda>c. if c = 0 then 6141272219141585 / 2 ^ 52 else 15 / 4)"
    then have "of_nat (count_eq (map label demo_rounding) 0) * (6141272219141585 / 2 ^ 52 :: rat)
                 = of_nat (length (map label demo_rounding))"
      using in0 unfolding equal_expectation_def by fastforce
    then show False using 2 len rounding_products(1) by simp
  qed
  show ?thesis using 1 2 3 rounding_products by simp
qed


section \<open>Properties of get_metrics and main\<close>

lemma set_column_fresh:
  "name \<notin> fst ` set (columns f) \<Longrightarrow>
   set_column name v f = f\<lparr>columns := columns f @ [(name, replicate (length (index f)) v)]\<rparr>"
  by (simp add: set_column_def Let_def)

lemma get_metrics_aligned:
  assumes d: "eval_fn ldr (get_discrete_metrics, m) max_mbs = Inr disc"
    and l: "eval_fn ldr (get_lee_metrics, m) max_mbs = Inr lee"
    and i: "index disc = index lee"
    and n: "set metadata_names \<inter> fst ` set (columns lee @ columns disc) = {}"
  shows "get_metrics eval_fn a key ldr m max_mbs =
           Inr \<lparr>index = index lee,
                columns = columns lee @ columns disc @
                  [(''dataset'', replicate (length (index lee)) (Str key)),
                   (''model'', replicate (length (index lee)) (Str (modelname a))),
                   (''params'', replicate (length (index lee)) (Integer (int (numparams m))))]\<rparr>"
proof -
  let ?f0 = "\<lparr>index = index lee, columns = columns lee @ columns disc\<rparr>"
  let ?k = "length (index lee)"
  have c: "concat_axis1 lee disc = Inr ?f0" using i by (simp add: concat_axis1_def)
  have n1: "''dataset'' \<notin> fst ` set (columns ?f0)"
    and n2: "''model'' \<notin> fst ` set (columns ?f0)"
    and n3: "''params'' \<notin> fst ` set (columns ?f0)"
    using n by (auto simp: metadata_names_def)
  show ?thesis
    using n1 n2 n3
    by (simp add: get_metrics_def d l c set_column_def Let_def image_Un)
qed

text \<open>
  Claim C7 (per-dataset row merge). When the two evaluation runs on the loader return
  one row each, under the same row label, and no metric column bears the name of a
  metadata column, \<open>get_metrics\<close> returns one row: the columns of the continuous family,
  then those of the discrete family, then \<open>dataset\<close> with the key, \<open>model\<close> with the model
  name and \<open>params\<close> with the sum of the element counts of the parameters. That makes
  \<open>M + N + 3\<close> columns.
\<close>

theorem get_metrics_row:
  assumes "eval_fn ldr (get_discrete_metrics, m) max_mbs = Inr discrete_metrics"
    and "eval_fn ldr (get_lee_metrics, m) max_mbs = Inr lee_metrics"
    and "index lee_metrics = [i]" and "index discrete_metrics = [i]"
    and "set metadata_names \<inter> fst ` set (columns lee_metrics @ columns discrete_metrics) = {}"
  shows "get_metrics eval_fn a key ldr m max_mbs =
           Inr \<lparr>index = [i],
                columns = columns lee_metrics @ columns discrete_metrics @
                  [(''dataset'', [Str key]), (''model'', [Str (modelname a)]),
                   (''params'', [Integer (int (sum_list (map prod_list (parameters m))))])]\<rparr> \<and>
         (\<forall>metrics. get_metrics eval_fn a key ldr m max_mbs = Inr metrics \<longrightarrow>
            length (index metrics) = 1 \<and>
            length (columns metrics) =
              length (columns lee_metrics) + length (columns discrete_metrics) + 3)"
proof -
  have "index discrete_metrics = index lee_metrics" using assms(3,4) by simp
  from get_metrics_aligned [where eval_fn = eval_fn and ldr = ldr and m = m
      and max_mbs = max_mbs and disc = discrete_metrics and lee = lee_metrics and a = a
      and key = key, OF assms(1,2) this assms(5)]
  have g: "get_metrics eval_fn a key ldr m max_mbs =
           Inr \<lparr>index = [i],
                columns = columns lee_metrics @ columns discrete_metrics @
                  [(''dataset'', [Str key]), (''model'', [Str (modelname a)]),
                   (''params'', [Integer (int (sum_list (map prod_list (parameters m))))])]\<rparr>"
    using assms(3) by (simp add: numparams_def numel_def [abs_def])
  then show ?thesis by simp
qed

lemma demo_eval_rows:
  "demo_eval ldr (get_discrete_metrics, m) n =
     Inr \<lparr>index = [0], columns = [(''disc_x'', [Float 3])]\<rparr>"
  "demo_eval ldr (get_lee_metrics, m) n =
     Inr \<lparr>index = [0], columns = [(''lee_a'', [Float 1]), (''lee_b'', [Float 2])]\<rparr>"
  by (simp_all add: demo_eval_def)

text \<open>
  Claim C7 on the demo evaluator: a continuous row of two columns and a discrete row of
  one column give a row of six columns for the dataset \<open>train\<close>; the demo model has
  \<open>2 * 3 + 3 = 9\<close> parameters.
\<close>

theorem get_metrics_row_witness:
  "demo_eval demo_train_loader (get_discrete_metrics, demo_model) 400 =
     Inr \<lparr>index = [0], columns = [(''disc_x'', [Float 3])]\<rparr> \<and>
   demo_eval demo_train_loader (get_lee_metrics, demo_model) 400 =
     Inr \<lparr>index = [0], columns = [(''lee_a'', [Float 1]), (''lee_b'', [Float 2])]\<rparr> \<and>
   get_metrics demo_eval demo_args ''train'' demo_train_loader demo_model 400 =
     Inr \<lparr>index = [0],
          columns = [(''lee_a'', [Float 1]), (''lee_b'', [Float 2]), (''disc_x'', [Float 3]),
                     (''dataset'', [Str ''train'']), (''model'', [Str ''resnet18'']),
                     (''params'', [Integer 9])]\<rparr>"
proof -
  let ?disc = "\<lparr>index = [0::nat], columns = [(''disc_x'', [Float 3])]\<rparr>"
  let ?lee = "\<lparr>index = [0::nat], columns = [(''lee_a'', [Float 1]), (''lee_b'', [Float 2])]\<rparr>"
  have n: "set metadata_names \<inter> fst ` set (columns ?lee @ columns ?disc) = {}"
    by (simp add: metadata_names_def)
  from get_metrics_row [where eval_fn = demo_eval and ldr = demo_train_loader
      and m = demo_model and max_mbs = 400 and discrete_metrics = ?disc
      and lee_metrics = ?lee and i = 0 and a = demo_args and key = "''train''",
      OF demo_eval_rows(1) demo_eval_rows(2) _ _ n]
  have "get_metrics demo_eval demo_args ''train'' demo_train_loader demo_model 400 =
     Inr \<lparr>index = [0],
          columns = [(''lee_a'', [Float 1]), (''lee_b'', [Float 2]), (''disc_x'', [Float 3]),
                     (''dataset'', [Str ''train'']), (''model'', [Str ''resnet18'']),
                     (''params'', [Integer 9])]\<rparr>"
    by (simp add: demo_args_def demo_model_def)
  then show ?thesis using demo_eval_rows by simp
qed

text \<open>A row as \<open>get_metrics\<close> stamps it for a key: one row label, column names that
  are pairwise different, and the key in the column \<open>dataset\<close>.\<close>

lemma get_metrics_stamped:
  assumes "evaluates_to_rows eval_fn m max_mbs ldr"
  shows "\<exists>row. get_metrics eval_fn a key ldr m max_mbs = Inr row \<and>
           length (index row) = 1 \<and> distinct (map fst (columns row)) \<and>
           map_of (columns row) ''dataset'' = Some [Str key]"
proof -
  from assms obtain disc lee where
    d: "eval_fn ldr (get_discrete_metrics, m) max_mbs = Inr disc" and
    l: "eval_fn ldr (get_lee_metrics, m) max_mbs = Inr lee" and
    al: "aligned_rows lee disc"
    by (auto simp: evaluates_to_rows_def split: sum.splits)
  from al have i: "index disc = index lee" and k: "length (index lee) = 1"
    and dis: "distinct (map fst (columns lee @ columns disc))"
    and nm: "\<forall>n \<in> set (map fst (columns lee @ columns disc)). n \<notin> set metadata_names"
    by (simp_all add: aligned_rows_def list_all_iff)
  have n: "set metadata_names \<inter> fst ` set (columns lee @ columns disc) = {}"
    using nm by auto
  have fresh: "''dataset'' \<notin> fst ` set (columns lee @ columns disc)"
    "''model'' \<notin> fst ` set (columns lee @ columns disc)"
    "''params'' \<notin> fst ` set (columns lee @ columns disc)"
    using n by (auto simp: metadata_names_def)
  let ?row = "\<lparr>index = index lee,
                columns = columns lee @ columns disc @
                  [(''dataset'', replicate (length (index lee)) (Str key)),
                   (''model'', replicate (length (index lee)) (Str (modelname a))),
                   (''params'', replicate (length (index lee)) (Integer (int (numparams m))))]\<rparr>"
  have g: "get_metrics eval_fn a key ldr m max_mbs = Inr ?row"
    by (rule get_metrics_aligned [where eval_fn = eval_fn and ldr = ldr and m = m
          and max_mbs = max_mbs and disc = disc and lee = lee, OF d l i n])
  have "''dataset'' \<notin> fst ` set (columns lee)" "''dataset'' \<notin> fst ` set (columns disc)"
    using fresh(1) by auto
  then have "map_of (columns lee) ''dataset'' = None" "map_of (columns disc) ''dataset'' = None"
    by (simp_all add: map_of_eq_None_iff)
  then have mo: "map_of (columns ?row) ''dataset'' = Some [Str key]"
    using k by (simp add: map_add_def)
  have di: "distinct (map fst (columns ?row))"
    using dis fresh by (auto simp: image_Un)
  show ?thesis using g k mo di by (intro exI [of _ ?row]) simp
qed

lemma evaluated_metrics_rows:
  assumes "list_all (\<lambda>p. evaluates_to_rows eval_fn m 400 (snd p)) pairs"
  shows "\<exists>rows. evaluated_metrics eval_fn a m pairs = Inr rows \<and>
           list_all2 (\<lambda>p row. length (index row) = 1 \<and> distinct (map fst (columns row)) \<and>
                        map_of (columns row) ''dataset'' = Some [Str (fst p)]) pairs rows"
  using assms
proof (induction pairs)
  case Nil
  then show ?case by simp
next
  case (Cons p pairs)
  obtain key ldr where p: "p = (key, ldr)" by (cases p)
  from Cons.prems have e: "evaluates_to_rows eval_fn m 400 ldr" by (simp add: p)
  from get_metrics_stamped [where eval_fn = eval_fn and m = m and max_mbs = 400
      and ldr = ldr and a = a and key = key, OF e] obtain row where
    r: "get_metrics eval_fn a key ldr m 400 = Inr row" "length (index row) = 1"
       "distinct (map fst (columns row))" "map_of (columns row) ''dataset'' = Some [Str key]"
    by blast
  from Cons obtain rows where
    rs: "evaluated_metrics eval_fn a m pairs = Inr rows"
        "list_all2 (\<lambda>p row. length (index row) = 1 \<and> distinct (map fst (columns row)) \<and>
                        map_of (columns row) ''dataset'' = Some [Str (fst p)]) pairs rows"
    by auto
  show ?case using r rs by (simp add: p)
qed

lemma concat_index_rows:
  "list_all2 (\<lambda>p row. length (index row) = 1 \<and> Q p row) pairs rows \<Longrightarrow>
   length (concat (map index rows)) = length pairs"
  by (induction pairs rows rule: list_all2_induct) simp_all

lemma concat_dataset_rows:
  "list_all2 (\<lambda>p row. Q p row \<and> map_of (columns row) ''dataset'' = Some [Str (fst p)]) pairs rows \<Longrightarrow>
   concat (map (\<lambda>f. column_or_nan f ''dataset'') rows) = map (\<lambda>p. Str (fst p)) pairs"
  by (induction pairs rows rule: list_all2_induct) (simp_all add: column_or_nan_def)

lemma concat_axis0_rows:
  assumes "pairs \<noteq> []"
    and a: "list_all2 (\<lambda>p row. length (index row) = 1 \<and> distinct (map fst (columns row)) \<and>
                        map_of (columns row) ''dataset'' = Some [Str (fst p)]) pairs rows"
  shows "\<exists>df. concat_axis0 rows = Inr df \<and> length (index df) = length pairs \<and>
           map_of (columns df) ''dataset'' = Some (map (\<lambda>p. Str (fst p)) pairs)"
proof -
  have ne: "rows \<noteq> []" using assms by (auto simp: list_all2_Nil2)
  have dist: "list_all distinct (map (\<lambda>f. map fst (columns f)) rows)"
    using a by (auto simp: list_all_iff list_all2_conv_all_nth in_set_conv_nth)
  let ?names = "remdups (concat (map (\<lambda>f. map fst (columns f)) rows))"
  let ?df = "\<lparr>index = concat (map index rows),
              columns = map (\<lambda>n. (n, concat (map (\<lambda>f. column_or_nan f n) rows))) ?names\<rparr>"
  have c: "concat_axis0 rows = Inr ?df"
    using ne dist by (simp add: concat_axis0_def Let_def)
  have len: "length (index ?df) = length pairs"
    using concat_index_rows [of "\<lambda>p row. distinct (map fst (columns row)) \<and>
                        map_of (columns row) ''dataset'' = Some [Str (fst p)]" pairs rows] a
    by simp
  obtain r where r: "r \<in> set rows" using ne by (cases rows) auto
  then obtain j where "j < length rows" "rows ! j = r" by (auto simp: in_set_conv_nth)
  then have "map_of (columns r) ''dataset'' \<noteq> None"
    using a by (auto simp: list_all2_conv_all_nth)
  then have "''dataset'' \<in> fst ` set (columns r)" by (simp add: map_of_eq_None_iff)
  then have mem: "''dataset'' \<in> set ?names" using r by auto
  have "map_of (columns ?df) ''dataset'' =
          Some (concat (map (\<lambda>f. column_or_nan f ''dataset'') rows))"
    using mem by (simp add: map_of_map_restrict)
  also have "concat (map (\<lambda>f. column_or_nan f ''dataset'') rows) = map (\<lambda>p. Str (fst p)) pairs"
    using concat_dataset_rows [of "\<lambda>p row. length (index row) = 1 \<and>
                        distinct (map fst (columns row))" pairs rows] a
    by (simp add: conj_assoc)
  finally show ?thesis using c len by blast
qed

text \<open>
  Claim C8 (report row count). For \<open>K \<ge> 1\<close> requested pairs whose evaluation runs return
  rows as the specification asks, the stacked report has exactly \<open>K\<close> rows, and its column
  \<open>dataset\<close> holds the keys of the pairs, in order.
\<close>

theorem report_row_count:
  assumes "pairs \<noteq> []"
    and "list_all (\<lambda>p. evaluates_to_rows eval_fn m 400 (snd p)) pairs"
  shows "\<exists>df. report eval_fn a m pairs = Inr df \<and> length (index df) = length pairs \<and>
           map_of (columns df) ''dataset'' = Some (map (\<lambda>p. Str (fst p)) pairs)"
proof -
  from evaluated_metrics_rows [OF assms(2), of a] obtain rows where
    rs: "evaluated_metrics eval_fn a m pairs = Inr rows"
        "list_all2 (\<lambda>p row. length (index row) = 1 \<and> distinct (map fst (columns row)) \<and>
                        map_of (columns row) ''dataset'' = Some [Str (fst p)]) pairs rows"
    by blast
  from concat_axis0_rows [OF assms(1) rs(2)] show ?thesis
    by (simp add: report_def rs(1))
qed

lemma demo_evaluates_to_rows: "evaluates_to_rows demo_eval m n ldr"
  by (simp add: evaluates_to_rows_def demo_eval_rows aligned_rows_def metadata_names_def)

text \<open>
  Claim C8 on the scenario of the specification: the datasets \<open>train\<close> and \<open>val\<close>, each with
  a continuous row \<open>lee_a, lee_b\<close> and a discrete row \<open>disc_x\<close>, give a report of two rows
  with the \<open>dataset\<close> values \<open>train\<close> and \<open>val\<close>.
\<close>

theorem report_row_count_witness:
  "demo_pairs \<noteq> [] \<and>
   list_all (\<lambda>p. evaluates_to_rows demo_eval demo_model 400 (snd p)) demo_pairs \<and>
   (\<exists>df. report demo_eval demo_args demo_model demo_pairs = Inr df \<and>
      length (index df) = 2 \<and>
      map_of (columns df) ''dataset'' = Some [Str ''train'', Str ''val''])"
proof -
  have ne: "demo_pairs \<noteq> []" by (simp add: demo_pairs_def)
  have ev: "list_all (\<lambda>p. evaluates_to_rows demo_eval demo_model 400 (snd p)) demo_pairs"
    by (simp add: demo_pairs_def demo_evaluates_to_rows)
  have len: "length demo_pairs = 2" by (simp add: demo_pairs_def)
  have keys: "map (\<lambda>p. Str (fst p)) demo_pairs = [Str ''train'', Str ''val'']"
    by (simp add: demo_pairs_def)
  from report_row_count [where pairs = demo_pairs and eval_fn = demo_eval
      and m = demo_model and a = demo_args, OF ne ev]
  show ?thesis unfolding len keys using ne ev by blast
qed














end
